theory Spec2Isabelle
  imports Complex_Main "HOL-Library.Log_Nat"
begin

section \<open>Mask construction kernels of \<open>radio/preprocessing/mask.py\<close>\<close>

text \<open>
  The module fills binary masks over three-dimensional numpy arrays. The embedding keeps
  the numpy operations the code uses: element-wise arithmetic on three-component index
  vectors, basic slicing (which yields a view that aliases the sliced array), slice
  assignment with broadcasting, integer indexing and boolean-mask indexing.

  The index arithmetic of the source is done on 64-bit integers. The model uses \<open>int\<close>;
  \<open>wrap64\<close> below is the value a 64-bit signed integer holds after wrap-around. The scalar
  arithmetic of the ellipsoid filler is written with \<open>wrap64\<close> at every operation. For
  \<open>insert_cropped\<close> the lemmas \<open>guard_wrap64\<close> and \<open>crop_wrap64\<close> show that for shapes
  below \<open>2^62\<close> and any 64-bit origin the guard and the crop boundaries are the same with
  and without wrap-around.
\<close>

definition wrap64 :: "int \<Rightarrow> int" where
  "wrap64 x = (x + 2 ^ 63) mod 2 ^ 64 - 2 ^ 63"

definition int64 :: "int \<Rightarrow> bool" where
  "int64 x = (- (2 ^ 63) \<le> x \<and> x < 2 ^ 63)"

subsection \<open>Index vectors\<close>

type_synonym vec3 = "int \<times> int \<times> int"

fun vadd :: "vec3 \<Rightarrow> vec3 \<Rightarrow> vec3" where
  "vadd (a0, a1, a2) (b0, b1, b2) = (a0 + b0, a1 + b1, a2 + b2)"

fun vsub :: "vec3 \<Rightarrow> vec3 \<Rightarrow> vec3" where
  "vsub (a0, a1, a2) (b0, b1, b2) = (a0 - b0, a1 - b1, a2 - b2)"

text \<open>Sum and difference of 64-bit scalars, component by component.\<close>

fun wadd :: "vec3 \<Rightarrow> vec3 \<Rightarrow> vec3" where
  "wadd (a0, a1, a2) (b0, b1, b2) = (wrap64 (a0 + b0), wrap64 (a1 + b1), wrap64 (a2 + b2))"

fun wsub :: "vec3 \<Rightarrow> vec3 \<Rightarrow> vec3" where
  "wsub (a0, a1, a2) (b0, b1, b2) = (wrap64 (a0 - b0), wrap64 (a1 - b1), wrap64 (a2 - b2))"

fun int64v :: "vec3 \<Rightarrow> bool" where
  "int64v (a0, a1, a2) = (int64 a0 \<and> int64 a1 \<and> int64 a2)"

fun vneg :: "vec3 \<Rightarrow> vec3" where
  "vneg (a0, a1, a2) = (- a0, - a1, - a2)"

fun np_minimum :: "vec3 \<Rightarrow> vec3 \<Rightarrow> vec3" where
  "np_minimum (a0, a1, a2) (b0, b1, b2) = (min a0 b0, min a1 b1, min a2 b2)"

fun np_maximum :: "vec3 \<Rightarrow> vec3 \<Rightarrow> vec3" where
  "np_maximum (a0, a1, a2) (b0, b1, b2) = (max a0 b0, max a1 b1, max a2 b2)"

fun zeros_like :: "vec3 \<Rightarrow> vec3" where
  "zeros_like (a0, a1, a2) = (0, 0, 0)"

text \<open>\<open>np.any(a <= 0)\<close> and \<open>np.any(a >= b)\<close>.\<close>

fun any_le_zero :: "vec3 \<Rightarrow> bool" where
  "any_le_zero (a0, a1, a2) = (a0 \<le> 0 \<or> a1 \<le> 0 \<or> a2 \<le> 0)"

fun any_ge :: "vec3 \<Rightarrow> vec3 \<Rightarrow> bool" where
  "any_ge (a0, a1, a2) (b0, b1, b2) = (a0 \<ge> b0 \<or> a1 \<ge> b1 \<or> a2 \<ge> b2)"

text \<open>The half-open box \<open>[lo, hi)\<close> and the list of its points in loop order.\<close>

fun in_box :: "vec3 \<Rightarrow> vec3 \<Rightarrow> vec3 \<Rightarrow> bool" where
  "in_box (l0, l1, l2) (h0, h1, h2) (p0, p1, p2) =
     (l0 \<le> p0 \<and> p0 < h0 \<and> l1 \<le> p1 \<and> p1 < h1 \<and> l2 \<le> p2 \<and> p2 < h2)"

fun box_points :: "vec3 \<Rightarrow> vec3 \<Rightarrow> vec3 list" where
  "box_points (l0, l1, l2) (h0, h1, h2) =
     concat (map (\<lambda>x. concat (map (\<lambda>y. map (\<lambda>z. (x, y, z)) [l2..h2 - 1]) [l1..h1 - 1]))
       [l0..h0 - 1])"

text \<open>A region \<open>[st, en)\<close> that lies inside an array of shape \<open>n\<close>, axis by axis.\<close>

fun region_within :: "vec3 \<Rightarrow> vec3 \<Rightarrow> vec3 \<Rightarrow> bool" where
  "region_within (n0, n1, n2) (s0, s1, s2) (e0, e1, e2) =
     (0 \<le> s0 \<and> s0 \<le> e0 \<and> e0 \<le> n0 \<and>
      0 \<le> s1 \<and> s1 \<le> e1 \<and> e1 \<le> n1 \<and>
      0 \<le> s2 \<and> s2 \<le> e2 \<and> e2 \<le> n2)"

subsection \<open>Arrays, views and slice assignment\<close>

text \<open>
  A three-dimensional numpy array is a window onto a buffer: \<open>buf\<close> is the storage, addressed
  by coordinates of the base array, \<open>off\<close> the position of element \<open>[0, 0, 0]\<close> in it and
  \<open>shape\<close> the extent. Basic slicing returns a view: the same buffer with another offset and
  shape, so a write through the view is a write to the sliced array.
\<close>

text \<open>
  The exceptions the code can raise are \<open>ValueError\<close>, \<open>IndexError\<close> and
  \<open>ZeroDivisionError\<close>. \<open>UncheckedAccess\<close> is not an exception. The kernels are compiled by
  numba, which checks no integer index: an index beyond an axis addresses whatever lies at
  the computed offset. Where that offset is outside the memory of the array, what the
  program reads or overwrites is not determined by its source; the model stops there with
  \<open>UncheckedAccess\<close>. The properties below of a kernel that can reach such an access are
  stated for inputs that do not reach it, and prove that it does not occur.
\<close>

datatype error = ValueError | IndexError | ZeroDivisionError | UncheckedAccess

record 'a ndarray =
  buf :: "vec3 \<Rightarrow> 'a"
  off :: vec3
  shape :: "nat \<times> nat \<times> nat"

fun ishape :: "nat \<times> nat \<times> nat \<Rightarrow> vec3" where
  "ishape (n0, n1, n2) = (int n0, int n1, int n2)"

definition np_shape :: "'a ndarray \<Rightarrow> vec3" where
  "np_shape a = ishape (shape a)"

definition in_bounds :: "'a ndarray \<Rightarrow> vec3 \<Rightarrow> bool" where
  "in_bounds a p = in_box (0, 0, 0) (np_shape a) p"

text \<open>The element at index \<open>p\<close> of the array (meaningful for \<open>p\<close> inside its bounds).\<close>

definition elem :: "'a ndarray \<Rightarrow> vec3 \<Rightarrow> 'a" where
  "elem a p = buf a (vadd (off a) p)"

definition full :: "nat \<times> nat \<times> nat \<Rightarrow> 'a \<Rightarrow> 'a ndarray" where
  "full sh c = \<lparr>buf = (\<lambda>_. c), off = (0, 0, 0), shape = sh\<rparr>"

text \<open>
  Python's normalisation of the slice \<open>start:stop\<close> on an axis of length \<open>n\<close>: a negative
  bound counts from the end, both are clipped to \<open>[0, n]\<close>, and a stop below the start gives
  the empty slice.
\<close>

definition slice_lo :: "int \<Rightarrow> int \<Rightarrow> int" where
  "slice_lo n start = (if start < 0 then max (start + n) 0 else min start n)"

definition slice_hi :: "int \<Rightarrow> int \<Rightarrow> int \<Rightarrow> int" where
  "slice_hi n start stop =
     max (slice_lo n start) (if stop < 0 then max (stop + n) 0 else min stop n)"

fun slice_los :: "vec3 \<Rightarrow> vec3 \<Rightarrow> vec3" where
  "slice_los (n0, n1, n2) (s0, s1, s2) = (slice_lo n0 s0, slice_lo n1 s1, slice_lo n2 s2)"

fun slice_his :: "vec3 \<Rightarrow> vec3 \<Rightarrow> vec3 \<Rightarrow> vec3" where
  "slice_his (n0, n1, n2) (s0, s1, s2) (e0, e1, e2) =
     (slice_hi n0 s0 e0, slice_hi n1 s1 e1, slice_hi n2 s2 e2)"

fun nshape :: "vec3 \<Rightarrow> nat \<times> nat \<times> nat" where
  "nshape (d0, d1, d2) = (nat d0, nat d1, nat d2)"

text \<open>\<open>a[s0:e0, s1:e1, s2:e2]\<close>, a view of \<open>a\<close>.\<close>

definition get_slice :: "'a ndarray \<Rightarrow> vec3 \<Rightarrow> vec3 \<Rightarrow> 'a ndarray" where
  "get_slice a st en =
     (let lo = slice_los (np_shape a) st; hi = slice_his (np_shape a) st en
      in a\<lparr>off := vadd (off a) lo, shape := nshape (vsub hi lo)\<rparr>)"

text \<open>
  Broadcasting of a three-dimensional source onto a target region: on every axis the extents
  agree or the source has extent one, whose single element is then repeated.
\<close>

fun broadcastable :: "nat \<times> nat \<times> nat \<Rightarrow> nat \<times> nat \<times> nat \<Rightarrow> bool" where
  "broadcastable (s0, s1, s2) (d0, d1, d2) =
     ((s0 = d0 \<or> s0 = 1) \<and> (s1 = d1 \<or> s1 = 1) \<and> (s2 = d2 \<or> s2 = 1))"

fun bcast_index :: "nat \<times> nat \<times> nat \<Rightarrow> vec3 \<Rightarrow> vec3" where
  "bcast_index (s0, s1, s2) (p0, p1, p2) =
     (if s0 = 1 then 0 else p0, if s1 = 1 then 0 else p1, if s2 = 1 then 0 else p2)"

text \<open>
  \<open>dst[...] = src\<close> for a view \<open>dst\<close>: the buffer of \<open>dst\<close> after the assignment, or the
  \<open>ValueError\<close> numpy raises when the shapes do not broadcast.
\<close>

definition assign_view :: "'a ndarray \<Rightarrow> 'a ndarray \<Rightarrow> error + (vec3 \<Rightarrow> 'a)" where
  "assign_view dst src =
     (if broadcastable (shape src) (shape dst)
      then Inr (\<lambda>q. if in_bounds dst (vsub q (off dst))
                     then elem src (bcast_index (shape src) (vsub q (off dst)))
                     else buf dst q)
      else Inl ValueError)"

text \<open>\<open>dst[...] = c\<close> for a scalar \<open>c\<close>.\<close>

definition fill_view :: "'a ndarray \<Rightarrow> 'a \<Rightarrow> (vec3 \<Rightarrow> 'a)" where
  "fill_view dst c = (\<lambda>q. if in_bounds dst (vsub q (off dst)) then c else buf dst q)"

subsection \<open>\<open>insert_cropped\<close>\<close>

text \<open>The guard of the source: \<open>np.any(what_shape + origin <= 0) or np.any(origin >= where_shape)\<close>.\<close>

definition nothing_to_insert :: "vec3 \<Rightarrow> vec3 \<Rightarrow> vec3 \<Rightarrow> bool" where
  "nothing_to_insert where_shape what_shape origin =
     (any_le_zero (vadd what_shape origin) \<or> any_ge origin where_shape)"

text \<open>The crop boundaries \<open>(st_what, end_what, st_where, end_where)\<close> as the source computes them.\<close>

definition st_what :: "vec3 \<Rightarrow> vec3" where
  "st_what origin = vneg (np_minimum (zeros_like origin) origin)"

definition end_what :: "vec3 \<Rightarrow> vec3 \<Rightarrow> vec3 \<Rightarrow> vec3" where
  "end_what where_shape what_shape origin = np_minimum (vsub where_shape origin) what_shape"

definition st_where :: "vec3 \<Rightarrow> vec3" where
  "st_where origin = np_maximum origin (zeros_like origin)"

definition end_where :: "vec3 \<Rightarrow> vec3 \<Rightarrow> vec3 \<Rightarrow> vec3" where
  "end_where where_shape what_shape origin = np_minimum (vadd origin what_shape) where_shape"

text \<open>
  The function mutates \<open>where\<close> in place and returns nothing; the model returns the array
  \<open>where\<close> after the call, or the error raised.
\<close>

definition insert_cropped :: "'a ndarray \<Rightarrow> 'a ndarray \<Rightarrow> vec3 \<Rightarrow> error + 'a ndarray" where
  "insert_cropped where_arr what origin =
     (let what_shape = np_shape what; where_shape = np_shape where_arr
      in if nothing_to_insert where_shape what_shape origin then Inr where_arr
         else (case assign_view
                      (get_slice where_arr (st_where origin)
                         (end_where where_shape what_shape origin))
                      (get_slice what (st_what origin)
                         (end_what where_shape what_shape origin)) of
                 Inl e \<Rightarrow> Inl e
               | Inr b \<Rightarrow> Inr (where_arr\<lparr>buf := b\<rparr>)))"

subsection \<open>Loops that may raise\<close>

text \<open>
  The fillers mutate their output in place, so the writes made before an exception stay in
  the array. A loop body maps a state to an optional error and the state reached; the loop
  stops at the first error and keeps the state of that moment.
\<close>

fun for_each :: "('x \<Rightarrow> 's \<Rightarrow> error option \<times> 's) \<Rightarrow> 'x list \<Rightarrow> 's \<Rightarrow> error option \<times> 's" where
  "for_each body [] s = (None, s)"
| "for_each body (x # xs) s =
     (case body x s of
        (Some e, s') \<Rightarrow> (Some e, s')
      | (None, s') \<Rightarrow> for_each body xs s')"

text \<open>Python's \<open>range(a, b)\<close>.\<close>

definition py_range :: "int \<Rightarrow> int \<Rightarrow> int list" where
  "py_range a b = [a..b - 1]"

text \<open>
  Row \<open>i\<close> of a two-dimensional array in a compiled kernel. The index is not checked: beyond
  the last row the code reads the memory that follows the array.
\<close>

definition get_row :: "'a list \<Rightarrow> nat \<Rightarrow> error + 'a" where
  "get_row xs i = (if i < length xs then Inr (xs ! i) else Inl UncheckedAccess)"

subsection \<open>\<open>make_rect_mask_numba\<close>\<close>

text \<open>\<open>np.ones\<close> of a given shape; a negative dimension is a \<open>ValueError\<close>.\<close>

fun np_ones :: "vec3 \<Rightarrow> error + ('a::one) ndarray" where
  "np_ones (d0, d1, d2) =
     (if d0 < 0 \<or> d1 < 0 \<or> d2 < 0 then Inl ValueError
      else Inr (full (nat d0, nat d1, nat d2) 1))"

text \<open>
  One iteration of the loop. \<open>patient_mask\<close> is a view of \<open>batch_mask\<close>, so the buffer that
  \<open>insert_cropped\<close> leaves behind is the buffer of \<open>batch_mask\<close>. The sizes are taken as
  integers, on which the \<open>int(...)\<close> casts of the source are the identity.
\<close>

definition rect_item ::
  "vec3 list \<Rightarrow> vec3 list \<Rightarrow> vec3 list \<Rightarrow> vec3 list \<Rightarrow> nat \<Rightarrow> ('a::one) ndarray
     \<Rightarrow> error option \<times> 'a ndarray" where
  "rect_item start end_arr nodules_start nodules_size i batch_mask =
     (case get_row nodules_size i of
        Inl e \<Rightarrow> (Some e, batch_mask)
      | Inr nodule_size \<Rightarrow>
     (case np_ones nodule_size of
        Inl e \<Rightarrow> (Some e, batch_mask)
      | Inr nodule \<Rightarrow>
     (case get_row start i of
        Inl e \<Rightarrow> (Some e, batch_mask)
      | Inr start_i \<Rightarrow>
     (case get_row end_arr i of
        Inl e \<Rightarrow> (Some e, batch_mask)
      | Inr end_i \<Rightarrow>
     (case get_row nodules_start i of
        Inl e \<Rightarrow> (Some e, batch_mask)
      | Inr origin \<Rightarrow>
     (case insert_cropped (get_slice batch_mask start_i end_i) nodule origin of
        Inl e \<Rightarrow> (Some e, batch_mask)
      | Inr patient_mask \<Rightarrow> (None, batch_mask\<lparr>buf := buf patient_mask\<rparr>)))))))"


subsection \<open>Binary64 arithmetic\<close>

text \<open>
  The membership test of the ellipsoid filler and the coordinates of the regression path are
  computed in IEEE 754 double precision. A finite double is modelled by the rational it
  denotes (there is no NaN and no infinity among the inputs), and every operation rounds
  the exact result to the nearest double, ties to the even significand: 53 significant
  bits, the exponent \<open>ulp_exp\<close> of the last place not below \<open>-1074\<close> (gradual underflow).
  Overflow to infinity is not modelled: the quantities of the ellipsoid test are quotients
  of 64-bit integers, their squares and sums, and those of the regression path are clipped
  to \<open>[0, 1]\<close> right after the only operations that could overflow.
\<close>

text \<open>For \<open>x > 0\<close>, the \<open>k\<close> with \<open>2^k \<le> x < 2^(k+1)\<close>.\<close>

definition floor_log2 :: "rat \<Rightarrow> int" where
  "floor_log2 x = (if 1 \<le> x then bitlen \<lfloor>x\<rfloor> - 1 else - bitlen (\<lceil>1 / x\<rceil> - 1))"

text \<open>\<open>np.rint\<close>: the nearest integer, a tie going to the even one.\<close>

definition rint :: "rat \<Rightarrow> int" where
  "rint x =
     (let f = \<lfloor>x\<rfloor>; d = x - of_int f
      in if d < 1 / 2 then f else if 1 / 2 < d then f + 1 else if even f then f else f + 1)"

definition ulp_exp :: "rat \<Rightarrow> int" where
  "ulp_exp x = max (floor_log2 \<bar>x\<bar> - 52) (- 1074)"

definition rnd64 :: "rat \<Rightarrow> rat" where
  "rnd64 x =
     (if x = 0 then 0 else of_int (rint (x / 2 powi ulp_exp x)) * 2 powi ulp_exp x)"

definition fadd :: "rat \<Rightarrow> rat \<Rightarrow> rat" where
  "fadd x y = rnd64 (x + y)"

definition fsub :: "rat \<Rightarrow> rat \<Rightarrow> rat" where
  "fsub x y = rnd64 (x - y)"

definition fmul :: "rat \<Rightarrow> rat \<Rightarrow> rat" where
  "fmul x y = rnd64 (x * y)"

definition fdiv :: "rat \<Rightarrow> rat \<Rightarrow> rat" where
  "fdiv x y = rnd64 (x / y)"

text \<open>Conversion of a 64-bit integer to a double.\<close>

definition float_of_int :: "int \<Rightarrow> rat" where
  "float_of_int n = rnd64 (of_int n)"

text \<open>\<open>astype(np.int)\<close>: truncation towards zero.\<close>

definition astype_int :: "rat \<Rightarrow> int" where
  "astype_int x = (if 0 \<le> x then \<lfloor>x\<rfloor> else \<lceil>x\<rceil>)"

subsection \<open>\<open>make_ellipse_mask_numba\<close>\<close>

text \<open>
  The centers and radiuses are integer arrays (they bound a \<open>range\<close>). The test
  \<open>((x - c0)/r0) ** 2 + ((y - c1)/r1) ** 2 + ((z - c2)/r2) ** 2 < 1\<close> subtracts 64-bit
  integers and divides integers, which converts both operands to doubles; a zero radius
  raises \<open>ZeroDivisionError\<close>. The square is a rounded product (the compiled code
  multiplies), and the sum associates to the left.
\<close>

definition true_divide :: "int \<Rightarrow> int \<Rightarrow> rat" where
  "true_divide a b = fdiv (float_of_int a) (float_of_int b)"

definition fsquare :: "rat \<Rightarrow> rat" where
  "fsquare u = fmul u u"

fun quadratic_form :: "vec3 \<Rightarrow> vec3 \<Rightarrow> vec3 \<Rightarrow> rat" where
  "quadratic_form (x, y, z) (c0, c1, c2) (r0, r1, r2) =
     fadd (fadd (fsquare (true_divide (wrap64 (x - c0)) r0))
             (fsquare (true_divide (wrap64 (y - c1)) r1)))
       (fsquare (true_divide (wrap64 (z - c2)) r2))"

text \<open>
  The quadratic form as the specification writes it, in exact arithmetic, for comparison
  with the computed one.
\<close>

fun exact_form :: "vec3 \<Rightarrow> vec3 \<Rightarrow> vec3 \<Rightarrow> rat" where
  "exact_form (x, y, z) (c0, c1, c2) (r0, r1, r2) =
     (of_int (x - c0) / of_int r0)\<^sup>2 + (of_int (y - c1) / of_int r1)\<^sup>2 +
     (of_int (z - c2) / of_int r2)\<^sup>2"

fun has_zero :: "vec3 \<Rightarrow> bool" where
  "has_zero (r0, r1, r2) = (r0 = 0 \<or> r1 = 0 \<or> r2 = 0)"

definition ellipse_test :: "vec3 \<Rightarrow> vec3 \<Rightarrow> vec3 \<Rightarrow> error + bool" where
  "ellipse_test v center radius =
     (if has_zero radius then Inl ZeroDivisionError
      else Inr (quadratic_form v center radius < 1))"

text \<open>
  Integer indexing in a compiled kernel. On an axis of length \<open>n\<close> a negative index has \<open>n\<close>
  added to it; nothing else is checked. The element addressed is the one at the offset
  \<open>(i0 * n1 + i1) * n2 + i2\<close> from element \<open>[0, 0, 0]\<close>, the array being laid out in C order
  with the strides of its own shape, as an array allocated by \<open>np.zeros\<close> is. An index
  inside the bounds addresses its own element, whatever the layout; an index beyond an
  axis carries over into the neighbouring rows; an offset outside \<open>[0, n0 * n1 * n2)\<close> is
  outside the array (the offset is a mathematical integer, not reduced modulo \<open>2^64\<close>).
\<close>

definition wrap_index :: "int \<Rightarrow> int \<Rightarrow> int" where
  "wrap_index n i = (if i < 0 then i + n else i)"

fun wrap_indices :: "vec3 \<Rightarrow> vec3 \<Rightarrow> vec3" where
  "wrap_indices (n0, n1, n2) (i0, i1, i2) = (wrap_index n0 i0, wrap_index n1 i1, wrap_index n2 i2)"

fun flat_index :: "vec3 \<Rightarrow> vec3 \<Rightarrow> int" where
  "flat_index (n0, n1, n2) (i0, i1, i2) = (i0 * n1 + i1) * n2 + i2"

fun unflat_index :: "vec3 \<Rightarrow> int \<Rightarrow> vec3" where
  "unflat_index (n0, n1, n2) f = (f div n2 div n1, f div n2 mod n1, f mod n2)"

fun size3 :: "vec3 \<Rightarrow> int" where
  "size3 (n0, n1, n2) = n0 * n1 * n2"

text \<open>\<open>a[i0, i1, i2] = c\<close>.\<close>

definition set_item :: "'a ndarray \<Rightarrow> vec3 \<Rightarrow> 'a \<Rightarrow> error + 'a ndarray" where
  "set_item a idx c =
     (let n = np_shape a; f = flat_index n (wrap_indices n idx)
      in if 0 \<le> f \<and> f < size3 n
         then Inr (a\<lparr>buf := (buf a)(vadd (off a) (unflat_index n f) := c)\<rparr>)
         else Inl UncheckedAccess)"

text \<open>
  The body of the innermost loop at the voxel \<open>v = (x, y, z)\<close>; the write index
  \<open>(x + start[i][0], y + start[i][1], z + start[i][2])\<close> is a sum of 64-bit integers.
\<close>

definition ellipse_voxel ::
  "vec3 \<Rightarrow> vec3 \<Rightarrow> vec3 \<Rightarrow> vec3 \<Rightarrow> ('a::one) ndarray \<Rightarrow> error option \<times> 'a ndarray" where
  "ellipse_voxel start_i center radius v batch_mask =
     (case ellipse_test v center radius of
        Inl e \<Rightarrow> (Some e, batch_mask)
      | Inr inside \<Rightarrow>
          if inside
          then (case set_item batch_mask (wadd v start_i) 1 of
                  Inl e \<Rightarrow> (Some e, batch_mask)
                | Inr b \<Rightarrow> (None, b))
          else (None, batch_mask))"

text \<open>The scan range of an item, computed on 64-bit integers.\<close>

definition scan_begin :: "vec3 \<Rightarrow> vec3 \<Rightarrow> vec3" where
  "scan_begin center radius = np_maximum (0, 0, 0) (wsub center radius)"

definition scan_end :: "vec3 \<Rightarrow> vec3 \<Rightarrow> vec3 \<Rightarrow> vec3 \<Rightarrow> vec3" where
  "scan_end start_i end_i center radius =
     np_minimum (wsub end_i start_i) (wadd (wadd center radius) (1, 1, 1))"

fun scan_loops ::
  "vec3 \<Rightarrow> vec3 \<Rightarrow> (vec3 \<Rightarrow> 's \<Rightarrow> error option \<times> 's) \<Rightarrow> 's \<Rightarrow> error option \<times> 's" where
  "scan_loops (begin_x, begin_y, begin_z) (end_x, end_y, end_z) body s =
     for_each (\<lambda>x.
       for_each (\<lambda>y.
         for_each (\<lambda>z. body (x, y, z)) (py_range begin_z end_z))
         (py_range begin_y end_y))
       (py_range begin_x end_x) s"

definition ellipse_item ::
  "vec3 list \<Rightarrow> vec3 list \<Rightarrow> vec3 list \<Rightarrow> vec3 list \<Rightarrow> nat \<Rightarrow> ('a::one) ndarray
     \<Rightarrow> error option \<times> 'a ndarray" where
  "ellipse_item start end_arr centers radiuses i batch_mask =
     (case get_row centers i of
        Inl e \<Rightarrow> (Some e, batch_mask)
      | Inr center \<Rightarrow>
     (case get_row radiuses i of
        Inl e \<Rightarrow> (Some e, batch_mask)
      | Inr radius \<Rightarrow>
     (case get_row end_arr i of
        Inl e \<Rightarrow> (Some e, batch_mask)
      | Inr end_i \<Rightarrow>
     (case get_row start i of
        Inl e \<Rightarrow> (Some e, batch_mask)
      | Inr start_i \<Rightarrow>
          scan_loops (scan_begin center radius) (scan_end start_i end_i center radius)
            (ellipse_voxel start_i center radius) batch_mask))))"

definition make_ellipse_mask_numba ::
  "('a::one) ndarray \<Rightarrow> vec3 list \<Rightarrow> vec3 list \<Rightarrow> vec3 list \<Rightarrow> vec3 list
     \<Rightarrow> error option \<times> 'a ndarray" where
  "make_ellipse_mask_numba batch_mask start end_arr centers radiuses =
     for_each (ellipse_item start end_arr centers radiuses) [0..<length centers] batch_mask"

subsection \<open>\<open>create_mask_reg_jit\<close> and \<open>create_mask_reg\<close>\<close>

text \<open>
  The batch of masks is a four-dimensional array whose first axis is the item; it is modelled
  as the list of its three-dimensional items. \<open>masks[i, s0:e0, s1:e1, s2:e2] = 1.\<close> fills a
  slice of item \<open>i\<close>. The loop runs over the rows of \<open>start\<close>; the compiled code does not
  check \<open>i\<close> against \<open>masks\<close> and \<open>end\<close>, and beyond them it reads and writes outside the
  arrays.
\<close>

definition fill_slice :: "'a ndarray \<Rightarrow> vec3 \<Rightarrow> vec3 \<Rightarrow> 'a \<Rightarrow> 'a ndarray" where
  "fill_slice a st en c = a\<lparr>buf := fill_view (get_slice a st en) c\<rparr>"

definition jit_item ::
  "vec3 list \<Rightarrow> vec3 list \<Rightarrow> nat \<Rightarrow> ('a::one) ndarray list \<Rightarrow> error option \<times> 'a ndarray list" where
  "jit_item start end_arr i masks =
     (if i < length masks \<and> i < length end_arr
      then (None, masks[i := fill_slice (masks ! i) (start ! i) (end_arr ! i) 1])
      else (Some UncheckedAccess, masks))"

definition create_mask_reg_jit ::
  "('a::one) ndarray list \<Rightarrow> vec3 list \<Rightarrow> vec3 list \<Rightarrow> error option \<times> 'a ndarray list" where
  "create_mask_reg_jit masks start end_arr =
     for_each (jit_item start end_arr) [0..<length start] masks"

type_synonym fvec3 = "rat \<times> rat \<times> rat"

text \<open>\<open>np.clip(x, lo, hi)\<close>.\<close>

definition np_clip :: "rat \<Rightarrow> rat \<Rightarrow> rat \<Rightarrow> rat" where
  "np_clip x lo hi = min (max x lo) hi"

text \<open>
  One component of \<open>np.rint(np.clip(centers - sizes / 2, 0, 1) * _crop_shape).astype(np.int)\<close>
  and of its counterpart with \<open>+\<close>.
\<close>

definition start_coord :: "rat \<Rightarrow> rat \<Rightarrow> int \<Rightarrow> int" where
  "start_coord c s n =
     astype_int (of_int (rint (fmul (np_clip (fsub c (fdiv s 2)) 0 1) (float_of_int n))))"

definition end_coord :: "rat \<Rightarrow> rat \<Rightarrow> int \<Rightarrow> int" where
  "end_coord c s n =
     astype_int (of_int (rint (fmul (np_clip (fadd c (fdiv s 2)) 0 1) (float_of_int n))))"

fun start_pixel :: "vec3 \<Rightarrow> fvec3 \<times> fvec3 \<Rightarrow> vec3" where
  "start_pixel (n0, n1, n2) ((c0, c1, c2), (s0, s1, s2)) =
     (start_coord c0 s0 n0, start_coord c1 s1 n1, start_coord c2 s2 n2)"

fun end_pixel :: "vec3 \<Rightarrow> fvec3 \<times> fvec3 \<Rightarrow> vec3" where
  "end_pixel (n0, n1, n2) ((c0, c1, c2), (s0, s1, s2)) =
     (end_coord c0 s0 n0, end_coord c1 s1 n1, end_coord c2 s2 n2)"

text \<open>
  The rows of \<open>centers\<close> and \<open>sizes\<close> paired as numpy broadcasts two arrays of shapes
  \<open>(n, 3)\<close> and \<open>(m, 3)\<close>: equal lengths pair up, a single row is repeated, anything else is
  a \<open>ValueError\<close>.
\<close>

definition broadcast_rows :: "'a list \<Rightarrow> 'b list \<Rightarrow> error + ('a \<times> 'b) list" where
  "broadcast_rows xs ys =
     (if length xs = length ys then Inr (zip xs ys)
      else if length ys = 1 then Inr (zip xs (replicate (length xs) (hd ys)))
      else if length xs = 1 then Inr (zip (replicate (length ys) (hd xs)) ys)
      else Inl ValueError)"

text \<open>\<open>np.zeros(shape=(n_items, *crop_shape))\<close>.\<close>

fun np_zeros :: "nat \<Rightarrow> vec3 \<Rightarrow> error + ('a::zero) ndarray list" where
  "np_zeros n_items (d0, d1, d2) =
     (if d0 < 0 \<or> d1 < 0 \<or> d2 < 0 then Inl ValueError
      else Inr (replicate n_items (full (nat d0, nat d1, nat d2) 0)))"

text \<open>
  Indexing the first axis with a boolean array: \<open>a[positions, ...]\<close> copies the selected
  items, and \<open>a[positions, ...] = values\<close> stores one value per selected item. The boolean
  array must be as long as the axis.
\<close>

definition selected :: "'a list \<Rightarrow> bool list \<Rightarrow> 'a list" where
  "selected xs ps = map fst (filter snd (zip xs ps))"

definition bool_select :: "'a list \<Rightarrow> bool list \<Rightarrow> error + 'a list" where
  "bool_select xs ps =
     (if length ps = length xs then Inr (selected xs ps) else Inl IndexError)"

fun bool_store :: "'a list \<Rightarrow> bool list \<Rightarrow> 'a list \<Rightarrow> 'a list" where
  "bool_store (x # xs) (p # ps) vs =
     (if p then (case vs of [] \<Rightarrow> x # xs | v # vs' \<Rightarrow> v # bool_store xs ps vs')
      else x # bool_store xs ps vs)"
| "bool_store xs ps vs = xs"

definition bool_assign :: "'a list \<Rightarrow> bool list \<Rightarrow> 'a list \<Rightarrow> error + 'a list" where
  "bool_assign xs ps vs =
     (if length ps \<noteq> length xs then Inl IndexError
      else if length vs \<noteq> length (filter id ps) then Inl ValueError
      else Inr (bool_store xs ps vs))"

text \<open>
  \<open>positions = np.array([p > threshold for p in probs])\<close>. For an empty \<open>probs\<close> this is an
  empty array of floats, which numpy refuses as an index.
\<close>

definition positions_of :: "rat list \<Rightarrow> rat \<Rightarrow> bool list" where
  "positions_of probs threshold = map (\<lambda>p. threshold < p) probs"

definition create_mask_reg ::
  "fvec3 list \<Rightarrow> fvec3 list \<Rightarrow> rat list \<Rightarrow> vec3 \<Rightarrow> rat \<Rightarrow> error + ('a::{zero,one}) ndarray list" where
  "create_mask_reg centers sizes probs crop_shape threshold =
     (case np_zeros (length centers) crop_shape of
        Inl e \<Rightarrow> Inl e
      | Inr masks_array \<Rightarrow>
     (case broadcast_rows centers sizes of
        Inl e \<Rightarrow> Inl e
      | Inr rows \<Rightarrow>
     (let start_pixels = map (start_pixel crop_shape) rows;
          end_pixels = map (end_pixel crop_shape) rows;
          positions = positions_of probs threshold
      in if probs = [] then Inl IndexError
         else
     (case bool_select masks_array positions of
        Inl e \<Rightarrow> Inl e
      | Inr sel_masks \<Rightarrow>
     (case bool_select start_pixels positions of
        Inl e \<Rightarrow> Inl e
      | Inr sel_start \<Rightarrow>
     (case bool_select end_pixels positions of
        Inl e \<Rightarrow> Inl e
      | Inr sel_end \<Rightarrow>
     (case create_mask_reg_jit sel_masks sel_start sel_end of
        (Some e, _) \<Rightarrow> Inl e
      | (None, filled) \<Rightarrow> bool_assign masks_array positions filled)))))))"

subsection \<open>Observations on a mask\<close>

text \<open>The elements of an array in index order, and two executable tests on them.\<close>

definition voxels :: "'a ndarray \<Rightarrow> 'a list" where
  "voxels a = map (elem a) (box_points (0, 0, 0) (np_shape a))"

definition all_zero :: "('a::zero) ndarray \<Rightarrow> bool" where
  "all_zero a = list_all (\<lambda>v. v = 0) (voxels a)"

definition has_one :: "('a::one) ndarray \<Rightarrow> bool" where
  "has_one a = list_ex (\<lambda>v. v = 1) (voxels a)"

text \<open>
  A vector without negative components, and a point that lies outside the window
  \<open>[start[i], end[i])\<close> of every item.
\<close>

fun nonneg3 :: "vec3 \<Rightarrow> bool" where
  "nonneg3 (a0, a1, a2) = (0 \<le> a0 \<and> 0 \<le> a1 \<and> 0 \<le> a2)"


text \<open>Component-wise comparisons of coordinate triples, and signs of a triple of sizes.\<close>

fun vle :: "vec3 \<Rightarrow> vec3 \<Rightarrow> bool" where
  "vle (a0, a1, a2) (b0, b1, b2) = (a0 \<le> b0 \<and> a1 \<le> b1 \<and> a2 \<le> b2)"

fun vlt :: "vec3 \<Rightarrow> vec3 \<Rightarrow> bool" where
  "vlt (a0, a1, a2) (b0, b1, b2) = (a0 < b0 \<and> a1 < b1 \<and> a2 < b2)"

fun any_eq :: "vec3 \<Rightarrow> vec3 \<Rightarrow> bool" where
  "any_eq (a0, a1, a2) (b0, b1, b2) = (a0 = b0 \<or> a1 = b1 \<or> a2 = b2)"

fun fnonneg3 :: "fvec3 \<Rightarrow> bool" where
  "fnonneg3 (s0, s1, s2) = (0 \<le> s0 \<and> 0 \<le> s1 \<and> 0 \<le> s2)"

fun fpos3 :: "fvec3 \<Rightarrow> bool" where
  "fpos3 (s0, s1, s2) = (0 < s0 \<and> 0 < s1 \<and> 0 < s2)"


section \<open>Properties of \<open>insert_cropped\<close>\<close>

subsection \<open>The crop boundaries, axis by axis\<close>

lemma crop_axis:
  fixes D S orig :: int
  assumes "0 \<le> D" "0 \<le> S" "\<not> S + orig \<le> 0" "\<not> D \<le> orig"
  shows "0 \<le> - min 0 orig" "- min 0 orig \<le> min (D - orig) S" "min (D - orig) S \<le> S"
    "0 \<le> max orig 0" "max orig 0 \<le> min (orig + S) D" "min (orig + S) D \<le> D"
    "min (D - orig) S - (- min 0 orig) = min (orig + S) D - max orig 0"
    "max orig 0 - (- min 0 orig) = orig"
  using assms by (simp_all add: min_def max_def)

lemma st_what_axis: "- min 0 orig = max 0 (- orig)" for orig :: int
  by (simp add: min_def max_def)

lemma slice_lo_id: "0 \<le> s \<Longrightarrow> s \<le> n \<Longrightarrow> slice_lo n s = s"
  by (simp add: slice_lo_def)

lemma slice_hi_id: "0 \<le> s \<Longrightarrow> s \<le> e \<Longrightarrow> e \<le> n \<Longrightarrow> slice_hi n s e = e"
  by (simp add: slice_hi_def slice_lo_def)

lemma region_within_slice:
  assumes "region_within n st en"
  shows "slice_los n st = st" "slice_his n st en = en"
proof -
  obtain n0 n1 n2 s0 s1 s2 e0 e1 e2 where
    eq: "n = (n0, n1, n2)" "st = (s0, s1, s2)" "en = (e0, e1, e2)"
    by (metis prod_cases3)
  show "slice_los n st = st" "slice_his n st en = en"
    using assms unfolding eq by (simp_all add: slice_lo_id slice_hi_id)
qed

lemma crop_regions:
  assumes "\<not> nothing_to_insert (np_shape w) (np_shape what) origin"
  shows "region_within (np_shape what) (st_what origin) (end_what (np_shape w) (np_shape what) origin)"
    and "region_within (np_shape w) (st_where origin) (end_where (np_shape w) (np_shape what) origin)"
    and "vsub (end_what (np_shape w) (np_shape what) origin) (st_what origin)
         = vsub (end_where (np_shape w) (np_shape what) origin) (st_where origin)"
    and "vsub (st_where origin) (st_what origin) = origin"
    and "st_what origin = np_maximum (0, 0, 0) (vneg origin)"
proof -
  obtain d0 d1 d2 s0 s1 s2 o0 o1 o2 where
    sh: "shape w = (d0, d1, d2)" "shape what = (s0, s1, s2)" and og: "origin = (o0, o1, o2)"
    by (metis prod_cases3)
  have eq: "np_shape w = (int d0, int d1, int d2)" "np_shape what = (int s0, int s1, int s2)"
    by (simp_all add: np_shape_def sh)
  have a0: "\<not> int s0 + o0 \<le> 0" "\<not> int d0 \<le> o0"
    and a1: "\<not> int s1 + o1 \<le> 0" "\<not> int d1 \<le> o1"
    and a2: "\<not> int s2 + o2 \<le> 0" "\<not> int d2 \<le> o2"
    using assms unfolding eq og by (simp_all add: nothing_to_insert_def)
  have nn: "0 \<le> int k" for k by simp
  note ax = crop_axis[OF nn nn a0] crop_axis[OF nn nn a1] crop_axis[OF nn nn a2]
  note defs = st_what_def end_what_def st_where_def end_where_def vneg.simps
    np_minimum.simps np_maximum.simps zeros_like.simps vsub.simps vadd.simps
    region_within.simps prod.inject
  show "region_within (np_shape what) (st_what origin) (end_what (np_shape w) (np_shape what) origin)"
    unfolding eq og by (simp only: defs ax simp_thms)
  show "region_within (np_shape w) (st_where origin) (end_where (np_shape w) (np_shape what) origin)"
    unfolding eq og by (simp only: defs ax simp_thms)
  show "vsub (end_what (np_shape w) (np_shape what) origin) (st_what origin)
         = vsub (end_where (np_shape w) (np_shape what) origin) (st_where origin)"
    unfolding eq og by (simp only: defs ax simp_thms)
  show "vsub (st_where origin) (st_what origin) = origin"
    unfolding eq og by (simp only: defs ax simp_thms)
  show "st_what origin = np_maximum (0, 0, 0) (vneg origin)"
    unfolding eq og by (simp only: defs st_what_axis simp_thms)
qed

lemma ishape_nshape_vsub:
  "region_within n st en \<Longrightarrow> ishape (nshape (vsub en st)) = vsub en st"
  by (cases n; cases st; cases en) simp

lemma get_slice_fields:
  assumes "region_within (np_shape a) st en"
  shows "off (get_slice a st en) = vadd (off a) st"
    and "buf (get_slice a st en) = buf a"
    and "shape (get_slice a st en) = nshape (vsub en st)"
    and "np_shape (get_slice a st en) = vsub en st"
proof -
  note sl = region_within_slice[OF assms]
  show "off (get_slice a st en) = vadd (off a) st"
    by (simp add: get_slice_def Let_def sl)
  show "buf (get_slice a st en) = buf a"
    by (simp add: get_slice_def Let_def)
  show sh: "shape (get_slice a st en) = nshape (vsub en st)"
    by (simp add: get_slice_def Let_def sl)
  show "np_shape (get_slice a st en) = vsub en st"
    unfolding np_shape_def[of "get_slice a st en"] sh by (rule ishape_nshape_vsub[OF assms])
qed

lemma in_box_shift: "in_box (0, 0, 0) (vsub en st) (vsub p st) = in_box st en p"
  by (cases en; cases st; cases p) auto

lemma vsub_vsub: "vsub (vsub q a) b = vsub q (vadd a b)"
  by (cases q; cases a; cases b) simp

lemma vadd_vsub_cancel: "vadd a (vsub p b) = vsub p (vsub b a)"
  by (cases p; cases a; cases b) simp

lemma vadd_assoc: "vadd (vadd a b) c = vadd a (vadd b c)"
  by (cases a; cases b; cases c) simp

lemma bcast_index_id: "in_box (0, 0, 0) (ishape sh) p \<Longrightarrow> bcast_index sh p = p"
  by (cases sh; cases p) auto

lemma broadcastable_refl: "broadcastable sh sh"
  by (cases sh) simp

lemma insert_cropped_eq:
  assumes "\<not> nothing_to_insert (np_shape w) (np_shape what) origin"
  shows "insert_cropped w what origin =
    Inr (w\<lparr>buf := (\<lambda>q. if in_box (st_where origin)
                              (end_where (np_shape w) (np_shape what) origin) (vsub q (off w))
                         then elem what (vsub (vsub q (off w)) origin)
                         else buf w q)\<rparr>)"
proof -
  let ?sd = "st_where origin" and ?ed = "end_where (np_shape w) (np_shape what) origin"
  let ?ss = "st_what origin" and ?es = "end_what (np_shape w) (np_shape what) origin"
  let ?dv = "get_slice w ?sd ?ed" and ?sv = "get_slice what ?ss ?es"
  note cr = crop_regions[OF assms]
  note fd = get_slice_fields[OF cr(2)] and fs = get_slice_fields[OF cr(1)]
  have bc: "broadcastable (shape ?sv) (shape ?dv)"
    by (simp add: fd fs cr(3) broadcastable_refl)
  have inb: "in_bounds ?dv (vsub q (off ?dv)) = in_box ?sd ?ed (vsub q (off w))" for q
    by (simp add: in_bounds_def fd vsub_vsub[symmetric] in_box_shift)
  have el: "elem ?sv (bcast_index (shape ?sv) (vsub q (off ?dv)))
      = elem what (vsub (vsub q (off w)) origin)"
    if "in_box ?sd ?ed (vsub q (off w))" for q
  proof -
    have "in_bounds ?dv (vsub q (off ?dv))"
      using that inb[of q] by simp
    then have "in_box (0, 0, 0) (np_shape ?sv) (vsub q (off ?dv))"
      by (simp add: in_bounds_def fs(4) fd(4) cr(3))
    then have "bcast_index (shape ?sv) (vsub q (off ?dv)) = vsub q (off ?dv)"
      unfolding np_shape_def by (rule bcast_index_id)
    moreover have "vadd ?ss (vsub (vsub q (off w)) ?sd) = vsub (vsub q (off w)) origin"
      by (simp add: vadd_vsub_cancel cr(4))
    ultimately show ?thesis
      by (simp add: elem_def fs fd vadd_assoc vsub_vsub[symmetric])
  qed
  have "assign_view ?dv ?sv
      = Inr (\<lambda>q. if in_box ?sd ?ed (vsub q (off w))
                   then elem what (vsub (vsub q (off w)) origin) else buf w q)"
    unfolding assign_view_def using bc by (auto simp: inb el fd(2) intro!: ext)
  then show ?thesis
    using assms by (simp add: insert_cropped_def Let_def)
qed


lemma region_within_in_box:
  "region_within n st en \<Longrightarrow> in_box st en p \<Longrightarrow> in_box (0, 0, 0) n p"
  by (cases n; cases st; cases en; cases p) auto

lemma in_box_vadd_vsub:
  "in_box sd ed p \<Longrightarrow> vsub ew sw = vsub ed sd \<Longrightarrow> in_box sw ew (vadd sw (vsub p sd))"
  by (cases sd; cases ed; cases p; cases sw; cases ew) auto

text \<open>
  Claim C1. For every destination, source and integer origin, \<open>insert_cropped\<close> returns
  without an error, keeps the shape of the destination and changes no storage outside its
  bounds; and whenever it copies (the guard of the source does not return early), the region
  read lies inside the source, the region written lies inside the destination, and both
  regions have the same extent on every axis.
\<close>

theorem insert_cropped_safe:
  "(\<exists>w'. insert_cropped w what origin = Inr w' \<and> shape w' = shape w \<and> off w' = off w \<and>
         (\<forall>q. \<not> in_bounds w (vsub q (off w)) \<longrightarrow> buf w' q = buf w q)) \<and>
   (\<not> nothing_to_insert (np_shape w) (np_shape what) origin \<longrightarrow>
      region_within (np_shape what) (st_what origin)
        (end_what (np_shape w) (np_shape what) origin) \<and>
      region_within (np_shape w) (st_where origin)
        (end_where (np_shape w) (np_shape what) origin) \<and>
      vsub (end_what (np_shape w) (np_shape what) origin) (st_what origin) =
        vsub (end_where (np_shape w) (np_shape what) origin) (st_where origin))"
proof (cases "nothing_to_insert (np_shape w) (np_shape what) origin")
  case True
  then show ?thesis by (simp add: insert_cropped_def)
next
  case False
  note cr = crop_regions[OF False]
  have "in_bounds w p" if "in_box (st_where origin) (end_where (np_shape w) (np_shape what) origin) p" for p
    unfolding in_bounds_def using cr(2) that by (rule region_within_in_box)
  then show ?thesis
    using False cr(1,2,3) by (auto simp: insert_cropped_eq[OF False])
qed

text \<open>
  Claim C2. When the guard does not return early, the crop boundaries are
  \<open>max(0, -origin)\<close>, \<open>min(where_shape - origin, what_shape)\<close>, \<open>max(origin, 0)\<close> and
  \<open>min(origin + what_shape, where_shape)\<close>, every destination element of the write region
  equals the corresponding source element of the read region afterwards, and every other
  element keeps its value.
\<close>

theorem insert_cropped_copies:
  assumes "\<not> nothing_to_insert (np_shape w) (np_shape what) origin"
  shows "st_what origin = np_maximum (0, 0, 0) (vneg origin) \<and>
    end_what (np_shape w) (np_shape what) origin
      = np_minimum (vsub (np_shape w) origin) (np_shape what) \<and>
    st_where origin = np_maximum origin (0, 0, 0) \<and>
    end_where (np_shape w) (np_shape what) origin
      = np_minimum (vadd origin (np_shape what)) (np_shape w) \<and>
    (\<exists>w'. insert_cropped w what origin = Inr w' \<and>
       (\<forall>p. in_box (st_where origin) (end_where (np_shape w) (np_shape what) origin) p \<longrightarrow>
          elem w' p = elem what (vadd (st_what origin) (vsub p (st_where origin))) \<and>
          in_bounds w p \<and>
          in_box (st_what origin) (end_what (np_shape w) (np_shape what) origin)
            (vadd (st_what origin) (vsub p (st_where origin)))) \<and>
       (\<forall>p. \<not> in_box (st_where origin) (end_where (np_shape w) (np_shape what) origin) p \<longrightarrow>
          elem w' p = elem w p))"
proof -
  let ?sd = "st_where origin" and ?ed = "end_where (np_shape w) (np_shape what) origin"
  let ?ss = "st_what origin" and ?es = "end_what (np_shape w) (np_shape what) origin"
  note cr = crop_regions[OF assms]
  have sw: "?sd = np_maximum origin (0, 0, 0)"
    by (cases origin) (simp add: st_where_def)
  have src: "vadd ?ss (vsub p ?sd) = vsub p origin" for p
    by (simp add: vadd_vsub_cancel cr(4))
  have rt: "vsub (vadd (off w) p) (off w) = p" for p
    by (cases p; cases "off w") simp
  have inb: "in_bounds w p" if "in_box ?sd ?ed p" for p
    unfolding in_bounds_def using cr(2) that by (rule region_within_in_box)
  have rd: "in_box ?ss ?es (vadd ?ss (vsub p ?sd))" if "in_box ?sd ?ed p" for p
    using that cr(3) by (rule in_box_vadd_vsub)
  show ?thesis
    apply (intro conjI)
        apply (rule cr(5))
       apply (simp add: end_what_def)
      apply (rule sw)
     apply (simp add: end_where_def)
    apply (simp only: insert_cropped_eq[OF assms])
    apply (rule exI, rule conjI, rule refl)
    apply (simp add: elem_def rt src inb rd[unfolded src])
    done
qed


subsection \<open>The 64-bit index arithmetic of \<open>insert_cropped\<close>\<close>

lemma wrap64_id: "- (2 ^ 63) \<le> x \<Longrightarrow> x < 2 ^ 63 \<Longrightarrow> wrap64 x = x"
  by (simp add: wrap64_def)

lemma wrap64_int64: "int64 x \<Longrightarrow> wrap64 x = x"
  by (simp add: int64_def wrap64_id)

lemma wrap64_over:
  assumes "2 ^ 63 \<le> x" and "x < 2 ^ 64"
  shows "wrap64 x = x - 2 ^ 64"
proof -
  define y where "y = x + 2 ^ 63 - 2 ^ 64"
  have y: "0 \<le> y" "y < 2 ^ 64" "x + 2 ^ 63 = y + 2 ^ 64"
    using assms by (simp_all add: y_def)
  have "(y + 2 ^ 64) mod 2 ^ 64 = y mod 2 ^ 64"
    by (rule mod_add_self2)
  also have "\<dots> = y"
    using y(1,2) by (rule mod_pos_pos_trivial)
  finally show ?thesis
    unfolding wrap64_def y(3) by (simp add: y_def)
qed

text \<open>
  The only sum that can overflow is \<open>what_shape + origin\<close> of the guard, for an origin close to
  \<open>2^63\<close>; it then wraps to a negative value and the guard returns early, as it does without
  wrap-around because such an origin is beyond the destination.
\<close>

lemma guard_wrap64:
  fixes S D orig :: int
  assumes "0 \<le> S" "S < 2 ^ 62" "0 \<le> D" "D < 2 ^ 62" "- (2 ^ 63) \<le> orig" "orig < 2 ^ 63"
  shows "(wrap64 (S + orig) \<le> 0 \<or> D \<le> orig) \<longleftrightarrow> (S + orig \<le> 0 \<or> D \<le> orig)"
proof (cases "S + orig < 2 ^ 63")
  case True
  then have "wrap64 (S + orig) = S + orig"
    using assms by (intro wrap64_id) simp_all
  then show ?thesis by simp
next
  case False
  then have "D \<le> orig" using assms by simp
  then show ?thesis by simp
qed

text \<open>Past the guard every intermediate value of the crop boundaries is in range.\<close>

lemma crop_wrap64:
  fixes S D orig :: int
  assumes "0 \<le> S" "S < 2 ^ 62" "0 \<le> D" "D < 2 ^ 62" "\<not> S + orig \<le> 0" "\<not> D \<le> orig"
  shows "wrap64 (- min 0 orig) = - min 0 orig" and "wrap64 (D - orig) = D - orig"
    and "wrap64 (orig + S) = orig + S"
  using assms by (simp_all add: wrap64_id min_def)


section \<open>Properties of the fillers\<close>

subsection \<open>Loops\<close>

text \<open>
  An invariant of the loop body is an invariant of the loop, also when the loop stops at an
  error; the three nested loops of the ellipsoid filler visit \<open>box_points\<close> in order.
\<close>

lemma for_each_preserves:
  assumes "\<And>x s. x \<in> set xs \<Longrightarrow> P s \<Longrightarrow> P (snd (body x s))" and "P s"
  shows "P (snd (for_each body xs s))"
  using assms
proof (induction xs arbitrary: s)
  case Nil
  then show ?case by simp
next
  case (Cons x xs)
  have step: "P (snd (body x s))"
    using Cons.prems by simp
  show ?case
  proof (cases "body x s")
    case (Pair r s')
    with step have s': "P s'" by simp
    show ?thesis
    proof (cases r)
      case None
      with Pair show ?thesis
        using Cons.IH[of s'] Cons.prems(1) s' by simp
    next
      case (Some e)
      with Pair s' show ?thesis by simp
    qed
  qed
qed

lemma for_each_map: "for_each body (map g xs) s = for_each (\<lambda>x. body (g x)) xs s"
  by (induction xs arbitrary: s) (simp_all split: prod.splits option.splits)

lemma for_each_append:
  "for_each body (xs @ ys) s =
     (case for_each body xs s of (Some e, s') \<Rightarrow> (Some e, s') | (None, s') \<Rightarrow> for_each body ys s')"
  by (induction xs arbitrary: s) (simp_all split: prod.splits option.splits)

lemma for_each_concat:
  "for_each body (concat (map f xs)) s = for_each (\<lambda>x. for_each body (f x)) xs s"
  by (induction xs arbitrary: s) (simp_all add: for_each_append split: prod.splits option.splits)

lemma for_each_map_fn: "for_each body (map g xs) = for_each (\<lambda>x. body (g x)) xs"
  by (rule ext) (rule for_each_map)

lemma for_each_concat_fn:
  "for_each body (concat (map f xs)) = for_each (\<lambda>x. for_each body (f x)) xs"
  by (rule ext) (rule for_each_concat)

lemma scan_loops_box_points: "scan_loops b e body s = for_each body (box_points b e) s"
proof -
  obtain b0 b1 b2 e0 e1 e2 where eq: "b = (b0, b1, b2)" "e = (e0, e1, e2)"
    by (metis prod_cases3)
  show ?thesis
    unfolding eq by (simp add: for_each_concat_fn for_each_map_fn py_range_def)
qed

lemma set_box_points: "set (box_points b e) = {p. in_box b e p}"
proof -
  obtain b0 b1 b2 e0 e1 e2 where eq: "b = (b0, b1, b2)" "e = (e0, e1, e2)"
    by (metis prod_cases3)
  show ?thesis
    unfolding eq by (auto simp: image_iff)
qed


subsection \<open>What an item of the box filler leaves unchanged\<close>



lemma get_slice_off: "off (get_slice a st en) = vadd (off a) (slice_los (np_shape a) st)"
  and get_slice_buf: "buf (get_slice a st en) = buf a"
  and get_slice_shape:
    "shape (get_slice a st en) = nshape (vsub (slice_his (np_shape a) st en) (slice_los (np_shape a) st))"
  by (simp_all add: get_slice_def Let_def)




subsection \<open>The scan range and the write index of the ellipsoid filler\<close>

text \<open>
  A loop that keeps an invariant and whose body never ends in a given outcome keeps the
  invariant and does not end in that outcome.
\<close>

lemma for_each_invariant:
  assumes "\<And>x s. x \<in> set xs \<Longrightarrow> P s \<Longrightarrow> P (snd (body x s)) \<and> fst (body x s) \<noteq> Some E"
    and "P s"
  shows "P (snd (for_each body xs s)) \<and> fst (for_each body xs s) \<noteq> Some E"
  using assms
proof (induction xs arbitrary: s)
  case Nil
  then show ?case by simp
next
  case (Cons x xs)
  have step: "P (snd (body x s)) \<and> fst (body x s) \<noteq> Some E"
    using Cons.prems by simp
  show ?case
  proof (cases "body x s")
    case (Pair r s')
    with step have s': "P s'" "r \<noteq> Some E" by simp_all
    show ?thesis
    proof (cases r)
      case None
      with Pair show ?thesis
        using Cons.IH[of s'] Cons.prems(1) s'(1) by simp
    next
      case (Some e)
      with Pair s' show ?thesis by simp
    qed
  qed
qed

lemma scan_axis:
  fixes s e v :: int
  assumes "int64 s" "int64 e" "s \<le> e" "0 \<le> v" "v < wrap64 (e - s)"
  shows "v < e - s" and "wrap64 (v + s) = v + s"
proof -
  have r: "0 \<le> e - s" "e - s < 2 ^ 64"
    using assms(1-3) by (simp_all add: int64_def)
  have w: "wrap64 (e - s) = e - s"
  proof (cases "e - s < 2 ^ 63")
    case True
    with r(1) show ?thesis by (intro wrap64_id) simp_all
  next
    case False
    then have "wrap64 (e - s) = e - s - 2 ^ 64"
      by (intro wrap64_over r(2)) simp
    with r(2) assms(4,5) show ?thesis by simp
  qed
  show "v < e - s"
    using assms(5) w by simp
  then show "wrap64 (v + s) = v + s"
    using assms(1,2,4) by (intro wrap64_id) (simp_all add: int64_def)
qed

lemma scan_box_in_window:
  assumes "in_box (scan_begin c r) (scan_end s e c r) v"
  shows "in_box (0, 0, 0) (wsub e s) v" and "nonneg3 v"
  using assms
  by (cases c; cases r; cases s; cases e; cases v; simp add: scan_begin_def scan_end_def)+

lemma scan_box_exact:
  assumes "in_box (scan_begin c r) (scan_end s e c r) v"
    and "vle s e" and "int64v s" and "int64v e"
  shows "in_box (0, 0, 0) (vsub e s) v" and "wadd v s = vadd v s"
    and "in_box s e (vadd v s)"
proof -
  obtain s0 s1 s2 e0 e1 e2 v0 v1 v2 where
    eq: "s = (s0, s1, s2)" "e = (e0, e1, e2)" "v = (v0, v1, v2)"
    by (metis prod_cases3)
  have b: "0 \<le> v0" "v0 < wrap64 (e0 - s0)" "0 \<le> v1" "v1 < wrap64 (e1 - s1)"
    "0 \<le> v2" "v2 < wrap64 (e2 - s2)"
    using scan_box_in_window(1)[OF assms(1)] unfolding eq by simp_all
  have h: "int64 s0" "int64 e0" "s0 \<le> e0" "int64 s1" "int64 e1" "s1 \<le> e1"
    "int64 s2" "int64 e2" "s2 \<le> e2"
    using assms(2-4) unfolding eq by simp_all
  note a0 = scan_axis[OF h(1-3) b(1,2)]
  note a1 = scan_axis[OF h(4-6) b(3,4)]
  note a2 = scan_axis[OF h(7-9) b(5,6)]
  show "in_box (0, 0, 0) (vsub e s) v"
    unfolding eq using b(1,3,5) a0(1) a1(1) a2(1) by simp
  show "wadd v s = vadd v s"
    unfolding eq using a0(2) a1(2) a2(2) by simp
  show "in_box s e (vadd v s)"
    unfolding eq using b(1,3,5) a0(1) a1(1) a2(1) by simp
qed

lemma region_within_int64:
  assumes "region_within n s e" and "int64v n"
  shows "vle s e" and "int64v s" and "int64v e" and "nonneg3 s" and "nonneg3 e"
  using assms by (cases n; cases s; cases e; simp add: int64_def)+

text \<open>An index inside the bounds addresses its own element.\<close>

lemma flat_axis:
  fixes a i n :: int
  assumes "0 \<le> a" "0 \<le> i" "i < n"
  shows "0 \<le> a * n + i" and "(a * n + i) div n = a" and "(a * n + i) mod n = i"
  using assms by simp_all

lemma flat_bound:
  fixes a i m n :: int
  assumes "0 \<le> a" "a < m" "0 \<le> i" "i < n"
  shows "a * n + i < m * n"
proof -
  have "a * n + i < a * n + n"
    using assms(4) by simp
  also have "\<dots> = (a + 1) * n"
    by (simp add: algebra_simps)
  also have "\<dots> \<le> m * n"
    using assms(2,3,4) by (intro mult_right_mono) simp_all
  finally show ?thesis .
qed

lemma flat_unflat:
  assumes "in_box (0, 0, 0) n idx"
  shows "wrap_indices n idx = idx" and "0 \<le> flat_index n idx"
    and "flat_index n idx < size3 n" and "unflat_index n (flat_index n idx) = idx"
proof -
  obtain n0 n1 n2 i0 i1 i2 where eq: "n = (n0, n1, n2)" "idx = (i0, i1, i2)"
    by (metis prod_cases3)
  have b: "0 \<le> i0" "i0 < n0" "0 \<le> i1" "i1 < n1" "0 \<le> i2" "i2 < n2"
    using assms unfolding eq by simp_all
  note f1 = flat_axis[OF b(1,3,4)]
  note f2 = flat_axis[OF f1(1) b(5,6)]
  show "wrap_indices n idx = idx"
    unfolding eq using b by (simp add: wrap_index_def)
  show "0 \<le> flat_index n idx"
    unfolding eq using f2(1) by simp
  show "flat_index n idx < size3 n"
    unfolding eq using flat_bound[OF f1(1) flat_bound[OF b(1,2,3,4)] b(5,6)] by simp
  show "unflat_index n (flat_index n idx) = idx"
    unfolding eq using f1(2,3) f2(2,3) by simp
qed

lemma set_item_in_bounds:
  assumes "in_bounds a idx"
  shows "set_item a idx c = Inr (a\<lparr>buf := (buf a)(vadd (off a) idx := c)\<rparr>)"
  using flat_unflat[OF assms[unfolded in_bounds_def]]
  by (simp add: set_item_def Let_def)


subsection \<open>What the fillers leave unchanged\<close>


lemma vsub_eq_iff: "vsub q a = b \<longleftrightarrow> q = vadd a b"
  by (cases q; cases a; cases b) auto

lemma nonneg3_vadd: "nonneg3 a \<Longrightarrow> nonneg3 b \<Longrightarrow> nonneg3 (vadd a b)"
  by (cases a; cases b) simp

lemma ellipse_voxel_frame:
  assumes "in_bounds s (vadd v start_i)" "wadd v start_i = vadd v start_i"
    "vsub q (off s) \<noteq> vadd v start_i"
  shows "(off (snd (ellipse_voxel start_i c rad v s)) = off s \<and>
    shape (snd (ellipse_voxel start_i c rad v s)) = shape s \<and>
    buf (snd (ellipse_voxel start_i c rad v s)) q = buf s q) \<and>
    fst (ellipse_voxel start_i c rad v s) \<noteq> Some UncheckedAccess"
proof -
  have ne: "q \<noteq> vadd (off s) (vadd v start_i)"
    using assms(3) by (simp add: vsub_eq_iff)
  show ?thesis
    using ne
    by (auto simp: ellipse_voxel_def ellipse_test_def assms(2) set_item_in_bounds[OF assms(1)]
        split: sum.splits)
qed

lemma ellipse_item_loop:
  assumes "i < length centers" "i < length radiuses" "i < length end_arr" "i < length start"
  shows "ellipse_item start end_arr centers radiuses i bm
      = for_each (ellipse_voxel (start ! i) (centers ! i) (radiuses ! i))
          (box_points (scan_begin (centers ! i) (radiuses ! i))
             (scan_end (start ! i) (end_arr ! i) (centers ! i) (radiuses ! i))) bm"
  using assms by (simp add: ellipse_item_def get_row_def scan_loops_box_points)

lemma ellipse_item_frame:
  assumes "i < length centers" "i < length radiuses" "i < length end_arr" "i < length start"
    and "region_within (np_shape s) (start ! i) (end_arr ! i)" and "int64v (np_shape s)"
    and "\<not> in_box (start ! i) (end_arr ! i) (vsub q (off s))"
  shows "(off (snd (ellipse_item start end_arr centers radiuses i s)) = off s \<and>
    shape (snd (ellipse_item start end_arr centers radiuses i s)) = shape s \<and>
    buf (snd (ellipse_item start end_arr centers radiuses i s)) q = buf s q) \<and>
    fst (ellipse_item start end_arr centers radiuses i s) \<noteq> Some UncheckedAccess"
proof -
  let ?c = "centers ! i" and ?r = "radiuses ! i" and ?s = "start ! i" and ?e = "end_arr ! i"
  let ?P = "\<lambda>t. off t = off s \<and> shape t = shape s \<and> buf t q = buf s q"
  note w = region_within_int64[OF assms(5,6)]
  have step: "?P (snd (ellipse_voxel ?s ?c ?r v t)) \<and>
      fst (ellipse_voxel ?s ?c ?r v t) \<noteq> Some UncheckedAccess"
    if "v \<in> set (box_points (scan_begin ?c ?r) (scan_end ?s ?e ?c ?r))" and "?P t" for v t
  proof -
    have bx: "in_box (scan_begin ?c ?r) (scan_end ?s ?e ?c ?r) v"
      using that(1) by (simp add: set_box_points)
    note ex = scan_box_exact[OF bx w(1-3)]
    have sh: "np_shape t = np_shape s"
      using that(2) by (simp add: np_shape_def)
    have ib: "in_bounds t (vadd v ?s)"
      unfolding in_bounds_def sh using assms(5) ex(3) by (rule region_within_in_box)
    have ne: "vsub q (off t) \<noteq> vadd v ?s"
      using ex(3) assms(7) that(2) by auto
    from ellipse_voxel_frame[OF ib ex(2) ne, of ?c ?r] that(2)
    show ?thesis by simp
  qed
  have "?P (snd (for_each (ellipse_voxel ?s ?c ?r)
      (box_points (scan_begin ?c ?r) (scan_end ?s ?e ?c ?r)) s)) \<and>
    fst (for_each (ellipse_voxel ?s ?c ?r)
      (box_points (scan_begin ?c ?r) (scan_end ?s ?e ?c ?r)) s) \<noteq> Some UncheckedAccess"
    by (rule for_each_invariant[where P = ?P]) (use step in auto)
  then show ?thesis
    unfolding ellipse_item_loop[OF assms(1-4)] .
qed





subsection \<open>Items outside their window, and the scan range\<close>

lemma box_points_empty: "any_ge b e \<Longrightarrow> box_points b e = []"
proof -
  assume a: "any_ge b e"
  have "set (box_points b e) = {}"
    unfolding set_box_points using a by (cases b; cases e) auto
  then show ?thesis by simp
qed

lemma np_shape_full: "np_shape (full sh c) = ishape sh"
  by (simp add: np_shape_def full_def)

lemma np_ones_nonneg:
  "nonneg3 d \<Longrightarrow> \<exists>nodule. np_ones d = Inr nodule \<and> np_shape nodule = d"
  by (cases d) (simp add: np_shape_full)

text \<open>
  Claim C3. If \<open>what_shape + origin <= 0\<close> or \<open>origin >= where_shape\<close> on some axis,
  \<open>insert_cropped\<close> returns without an error and leaves the destination as it was. Likewise
  an item of the box filler whose block lies outside its window, and an item of the ellipsoid
  filler whose scan range is empty on some axis, raise nothing and write nothing.
\<close>

theorem outside_is_noop:
  "(nothing_to_insert (np_shape w) (np_shape what) origin \<longrightarrow>
      insert_cropped w what origin = Inr w) \<and>
   (i < length nodules_size \<and> i < length start \<and> i < length end_arr \<and>
    i < length nodules_start \<and> nonneg3 (nodules_size ! i) \<and>
    nothing_to_insert (np_shape (get_slice bm (start ! i) (end_arr ! i)))
      (nodules_size ! i) (nodules_start ! i) \<longrightarrow>
      rect_item start end_arr nodules_start nodules_size i bm = (None, bm)) \<and>
   (i < length centers \<and> i < length radiuses \<and> i < length end_arr \<and> i < length start \<and>
    any_ge (scan_begin (centers ! i) (radiuses ! i))
      (scan_end (start ! i) (end_arr ! i) (centers ! i) (radiuses ! i)) \<longrightarrow>
      ellipse_item start end_arr centers radiuses i bm = (None, bm))"
proof (intro conjI impI)
  assume "nothing_to_insert (np_shape w) (np_shape what) origin"
  then show "insert_cropped w what origin = Inr w"
    by (simp add: insert_cropped_def)
next
  assume a: "i < length nodules_size \<and> i < length start \<and> i < length end_arr \<and>
    i < length nodules_start \<and> nonneg3 (nodules_size ! i) \<and>
    nothing_to_insert (np_shape (get_slice bm (start ! i) (end_arr ! i)))
      (nodules_size ! i) (nodules_start ! i)"
  then obtain nodule :: "'b ndarray" where
    n: "np_ones (nodules_size ! i) = Inr nodule" "np_shape nodule = nodules_size ! i"
    using np_ones_nonneg by blast
  have "insert_cropped (get_slice bm (start ! i) (end_arr ! i)) nodule (nodules_start ! i)
      = Inr (get_slice bm (start ! i) (end_arr ! i))"
    using a n(2) by (simp add: insert_cropped_def)
  then show "rect_item start end_arr nodules_start nodules_size i bm = (None, bm)"
    using a n(1) by (simp add: rect_item_def get_row_def get_slice_buf)
next
  assume a: "i < length centers \<and> i < length radiuses \<and> i < length end_arr \<and>
    i < length start \<and>
    any_ge (scan_begin (centers ! i) (radiuses ! i))
      (scan_end (start ! i) (end_arr ! i) (centers ! i) (radiuses ! i))"
  then show "ellipse_item start end_arr centers radiuses i bm = (None, bm)"
    by (simp add: ellipse_item_def get_row_def scan_loops_box_points box_points_empty)
qed

lemma wadd_int64: "int64v (vadd a b) \<Longrightarrow> wadd a b = vadd a b"
  and wsub_int64: "int64v (vsub a b) \<Longrightarrow> wsub a b = vsub a b"
  by (cases a; cases b; simp add: wrap64_int64)+

text \<open>
  Claim C4, as amended. For an item \<open>i\<close> that has a row in each array, with centre
  \<open>(c0, c1, c2)\<close>, radius \<open>(r0, r1, r2)\<close> and window \<open>[(s0, s1, s2), (e0, e1, e2))\<close>:
  the loops visit exactly the voxels of the box from \<open>max(0, c - r)\<close> to
  \<open>min(e - s, c + r + 1)\<close>, computed on 64-bit integers, which are the mathematical values
  where no operation overflows; every visited voxel has window-relative coordinates in
  \<open>[0, e - s)\<close>; for 64-bit bounds with \<open>s <= e\<close> its write index is \<open>v + s\<close> and lies in
  \<open>[s, e)\<close>; and when the window lies inside the destination, no index leaves the
  destination, the write made at a visited voxel \<open>v\<close> sets the element at index \<open>v + s\<close>, and
  every element the item changes lies inside the window.
\<close>

theorem ellipse_scan_range:
  assumes "i < length centers" and "i < length radiuses"
    and "i < length end_arr" and "i < length start"
    and "centers ! i = (c0, c1, c2)" and "radiuses ! i = (r0, r1, r2)"
    and "start ! i = (s0, s1, s2)" and "end_arr ! i = (e0, e1, e2)"
  shows "ellipse_item start end_arr centers radiuses i bm
      = for_each (ellipse_voxel (start ! i) (centers ! i) (radiuses ! i))
          (box_points
             (max 0 (wrap64 (c0 - r0)), max 0 (wrap64 (c1 - r1)), max 0 (wrap64 (c2 - r2)))
             (min (wrap64 (e0 - s0)) (wrap64 (wrap64 (c0 + r0) + 1)),
              min (wrap64 (e1 - s1)) (wrap64 (wrap64 (c1 + r1) + 1)),
              min (wrap64 (e2 - s2)) (wrap64 (wrap64 (c2 + r2) + 1)))) bm \<and>
    scan_begin (centers ! i) (radiuses ! i)
      = (max 0 (wrap64 (c0 - r0)), max 0 (wrap64 (c1 - r1)), max 0 (wrap64 (c2 - r2))) \<and>
    scan_end (start ! i) (end_arr ! i) (centers ! i) (radiuses ! i)
      = (min (wrap64 (e0 - s0)) (wrap64 (wrap64 (c0 + r0) + 1)),
         min (wrap64 (e1 - s1)) (wrap64 (wrap64 (c1 + r1) + 1)),
         min (wrap64 (e2 - s2)) (wrap64 (wrap64 (c2 + r2) + 1))) \<and>
    (int64v (vsub (centers ! i) (radiuses ! i)) \<and> int64v (vsub (end_arr ! i) (start ! i)) \<and>
     int64v (vadd (centers ! i) (radiuses ! i)) \<and>
     int64v (vadd (vadd (centers ! i) (radiuses ! i)) (1, 1, 1)) \<longrightarrow>
       scan_begin (centers ! i) (radiuses ! i)
         = (max 0 (c0 - r0), max 0 (c1 - r1), max 0 (c2 - r2)) \<and>
       scan_end (start ! i) (end_arr ! i) (centers ! i) (radiuses ! i)
         = (min (e0 - s0) (c0 + r0 + 1), min (e1 - s1) (c1 + r1 + 1),
            min (e2 - s2) (c2 + r2 + 1))) \<and>
    (\<forall>v \<in> set (box_points (scan_begin (centers ! i) (radiuses ! i))
               (scan_end (start ! i) (end_arr ! i) (centers ! i) (radiuses ! i))).
        in_box (0, 0, 0) (wrap64 (e0 - s0), wrap64 (e1 - s1), wrap64 (e2 - s2)) v) \<and>
    (vle (start ! i) (end_arr ! i) \<and> int64v (start ! i) \<and> int64v (end_arr ! i) \<longrightarrow>
       (\<forall>v \<in> set (box_points (scan_begin (centers ! i) (radiuses ! i))
                  (scan_end (start ! i) (end_arr ! i) (centers ! i) (radiuses ! i))).
          in_box (0, 0, 0) (e0 - s0, e1 - s1, e2 - s2) v \<and>
          wadd v (start ! i) = vadd v (start ! i) \<and>
          in_box (start ! i) (end_arr ! i) (vadd v (start ! i)))) \<and>
    (region_within (np_shape bm) (start ! i) (end_arr ! i) \<and> int64v (np_shape bm) \<longrightarrow>
       fst (ellipse_item start end_arr centers radiuses i bm) \<noteq> Some UncheckedAccess \<and>
       (\<forall>v \<in> set (box_points (scan_begin (centers ! i) (radiuses ! i))
                  (scan_end (start ! i) (end_arr ! i) (centers ! i) (radiuses ! i))).
          in_bounds bm (vadd v (start ! i)) \<and>
          set_item bm (wadd v (start ! i)) 1
            = Inr (bm\<lparr>buf := (buf bm)(vadd (off bm) (vadd v (start ! i)) := 1)\<rparr>)) \<and>
       (\<forall>q. buf (snd (ellipse_item start end_arr centers radiuses i bm)) q \<noteq> buf bm q \<longrightarrow>
          in_box (start ! i) (end_arr ! i) (vsub q (off bm))))"
proof -
  let ?c = "centers ! i" and ?r = "radiuses ! i" and ?s = "start ! i" and ?e = "end_arr ! i"
  have b: "scan_begin ?c ?r
      = (max 0 (wrap64 (c0 - r0)), max 0 (wrap64 (c1 - r1)), max 0 (wrap64 (c2 - r2)))"
    unfolding assms(5,6) by (simp add: scan_begin_def)
  have e: "scan_end ?s ?e ?c ?r
      = (min (wrap64 (e0 - s0)) (wrap64 (wrap64 (c0 + r0) + 1)),
         min (wrap64 (e1 - s1)) (wrap64 (wrap64 (c1 + r1) + 1)),
         min (wrap64 (e2 - s2)) (wrap64 (wrap64 (c2 + r2) + 1)))"
    unfolding assms(5-8) by (simp add: scan_end_def)
  have loop: "ellipse_item start end_arr centers radiuses i bm
      = for_each (ellipse_voxel ?s ?c ?r) (box_points (scan_begin ?c ?r) (scan_end ?s ?e ?c ?r)) bm"
    using assms(1-4) by (rule ellipse_item_loop)
  have exact: "scan_begin ?c ?r = (max 0 (c0 - r0), max 0 (c1 - r1), max 0 (c2 - r2)) \<and>
       scan_end ?s ?e ?c ?r
         = (min (e0 - s0) (c0 + r0 + 1), min (e1 - s1) (c1 + r1 + 1), min (e2 - s2) (c2 + r2 + 1))"
    if h: "int64v (vsub ?c ?r) \<and> int64v (vsub ?e ?s) \<and> int64v (vadd ?c ?r) \<and>
      int64v (vadd (vadd ?c ?r) (1, 1, 1))"
  proof -
    have w: "wsub ?c ?r = vsub ?c ?r" "wsub ?e ?s = vsub ?e ?s" "wadd ?c ?r = vadd ?c ?r"
      "wadd (vadd ?c ?r) (1, 1, 1) = vadd (vadd ?c ?r) (1, 1, 1)"
      using h by (simp_all add: wadd_int64 wsub_int64)
    show ?thesis
      unfolding scan_begin_def scan_end_def w unfolding assms(5-8) by simp
  qed
  have vis: "in_box (0, 0, 0) (wrap64 (e0 - s0), wrap64 (e1 - s1), wrap64 (e2 - s2)) v"
    if "v \<in> set (box_points (scan_begin ?c ?r) (scan_end ?s ?e ?c ?r))" for v
    using scan_box_in_window(1)[of ?c ?r ?s ?e v] that unfolding assms(7,8)
    by (simp add: set_box_points)
  have ord: "in_box (0, 0, 0) (e0 - s0, e1 - s1, e2 - s2) v \<and> wadd v ?s = vadd v ?s \<and>
      in_box ?s ?e (vadd v ?s)"
    if h: "vle ?s ?e \<and> int64v ?s \<and> int64v ?e"
      and v: "v \<in> set (box_points (scan_begin ?c ?r) (scan_end ?s ?e ?c ?r))" for v
  proof -
    have bx: "in_box (scan_begin ?c ?r) (scan_end ?s ?e ?c ?r) v"
      using v by (simp add: set_box_points)
    note ex = scan_box_exact[OF bx h[THEN conjunct1] h[THEN conjunct2, THEN conjunct1]
        h[THEN conjunct2, THEN conjunct2]]
    have "in_box (0, 0, 0) (e0 - s0, e1 - s1, e2 - s2) v"
      using ex(1) unfolding assms(7,8) by simp
    with ex(2,3) show ?thesis by simp
  qed
  have inside: "fst (ellipse_item start end_arr centers radiuses i bm) \<noteq> Some UncheckedAccess \<and>
       (\<forall>v \<in> set (box_points (scan_begin ?c ?r) (scan_end ?s ?e ?c ?r)).
          in_bounds bm (vadd v ?s) \<and>
          set_item bm (wadd v ?s) 1
            = Inr (bm\<lparr>buf := (buf bm)(vadd (off bm) (vadd v ?s) := 1)\<rparr>)) \<and>
       (\<forall>q. buf (snd (ellipse_item start end_arr centers radiuses i bm)) q \<noteq> buf bm q \<longrightarrow>
          in_box ?s ?e (vsub q (off bm)))"
    if h: "region_within (np_shape bm) ?s ?e \<and> int64v (np_shape bm)"
  proof (intro conjI allI impI ballI)
    fix v assume "v \<in> set (box_points (scan_begin ?c ?r) (scan_end ?s ?e ?c ?r))"
    then have bx: "in_box (scan_begin ?c ?r) (scan_end ?s ?e ?c ?r) v"
      by (simp add: set_box_points)
    note w = region_within_int64[OF h[THEN conjunct1] h[THEN conjunct2]]
    note ex = scan_box_exact[OF bx w(1-3)]
    show ib: "in_bounds bm (vadd v ?s)"
      unfolding in_bounds_def using h[THEN conjunct1] ex(3) by (rule region_within_in_box)
    show "set_item bm (wadd v ?s) 1
        = Inr (bm\<lparr>buf := (buf bm)(vadd (off bm) (vadd v ?s) := 1)\<rparr>)"
      unfolding ex(2) using ib by (rule set_item_in_bounds)
  next
    have "\<not> in_box ?s ?e (vsub (vadd (off bm) (- 1, - 1, - 1)) (off bm))"
      using h by (cases "np_shape bm"; cases "off bm") (simp add: assms(7,8))
    from ellipse_item_frame[OF assms(1-4) h[THEN conjunct1] h[THEN conjunct2] this]
    show "fst (ellipse_item start end_arr centers radiuses i bm) \<noteq> Some UncheckedAccess"
      by blast
  next
    fix q
    assume "buf (snd (ellipse_item start end_arr centers radiuses i bm)) q \<noteq> buf bm q"
    then show "in_box ?s ?e (vsub q (off bm))"
      using ellipse_item_frame[OF assms(1-4) h[THEN conjunct1] h[THEN conjunct2], of q]
      by blast
  qed
  show ?thesis
    unfolding loop b e
    using exact[unfolded b e] vis[unfolded b e] ord[unfolded b e] inside[unfolded loop b e]
    by (intro conjI impI ballI refl) blast+
qed


subsection \<open>Scenarios\<close>

lemma elem_full: "elem (full sh c) p = c"
  by (simp add: elem_def full_def)

text \<open>
  The first scenario of the docstring: a \<open>2 x 2 x 2\<close> block inserted at \<open>(2, 2, 2)\<close> into a
  \<open>3 x 3 x 3\<close> array.
\<close>

theorem insert_cropped_safe_witness:
  "\<not> nothing_to_insert (np_shape (full (3, 3, 3) (0::int))) (np_shape (full (2, 2, 2) (1::int)))
        (2, 2, 2) \<and>
   st_what (2, 2, 2) = (0, 0, 0) \<and>
   end_what (3, 3, 3) (2, 2, 2) (2, 2, 2) = (1, 1, 1) \<and>
   st_where (2, 2, 2) = (2, 2, 2) \<and>
   end_where (3, 3, 3) (2, 2, 2) (2, 2, 2) = (3, 3, 3) \<and>
   region_within (np_shape (full (2, 2, 2) (1::int))) (st_what (2, 2, 2))
     (end_what (np_shape (full (3, 3, 3) (0::int))) (np_shape (full (2, 2, 2) (1::int)))
        (2, 2, 2)) \<and>
   region_within (np_shape (full (3, 3, 3) (0::int))) (st_where (2, 2, 2))
     (end_where (np_shape (full (3, 3, 3) (0::int))) (np_shape (full (2, 2, 2) (1::int)))
        (2, 2, 2)) \<and>
   vsub (end_what (np_shape (full (3, 3, 3) (0::int))) (np_shape (full (2, 2, 2) (1::int)))
        (2, 2, 2)) (st_what (2, 2, 2)) =
   vsub (end_where (np_shape (full (3, 3, 3) (0::int))) (np_shape (full (2, 2, 2) (1::int)))
        (2, 2, 2)) (st_where (2, 2, 2))"
proof -
  let ?w = "full (3, 3, 3) (0::int)" and ?s = "full (2, 2, 2) (1::int)"
  have h: "\<not> nothing_to_insert (np_shape ?w) (np_shape ?s) (2, 2, 2)"
    by (simp add: np_shape_full nothing_to_insert_def)
  have b: "st_what (2, 2, 2) = (0, 0, 0)"
    "end_what (3, 3, 3) (2, 2, 2) (2, 2, 2) = (1, 1, 1)"
    "st_where (2, 2, 2) = (2, 2, 2)"
    "end_where (3, 3, 3) (2, 2, 2) (2, 2, 2) = (3, 3, 3)"
    by (simp_all add: st_what_def end_what_def st_where_def end_where_def)
  note c = insert_cropped_safe[of ?w ?s "(2, 2, 2)", THEN conjunct2, THEN mp, OF h]
  show ?thesis
    by (intro conjI h b c[THEN conjunct1] c[THEN conjunct2, THEN conjunct1]
        c[THEN conjunct2, THEN conjunct2])
qed

text \<open>
  The same block inserted at \<open>(-1, -1, -1)\<close>: only the corner \<open>[0, 0, 0]\<close> is written.
\<close>

theorem insert_cropped_copies_witness:
  "\<not> nothing_to_insert (np_shape (full (3, 3, 3) (0::int))) (np_shape (full (2, 2, 2) (1::int)))
        (- 1, - 1, - 1) \<and>
   st_what (- 1, - 1, - 1) = (1, 1, 1) \<and>
   end_what (3, 3, 3) (2, 2, 2) (- 1, - 1, - 1) = (2, 2, 2) \<and>
   st_where (- 1, - 1, - 1) = (0, 0, 0) \<and>
   end_where (3, 3, 3) (2, 2, 2) (- 1, - 1, - 1) = (1, 1, 1) \<and>
   (\<exists>w'. insert_cropped (full (3, 3, 3) (0::int)) (full (2, 2, 2) 1) (- 1, - 1, - 1) = Inr w' \<and>
      elem w' (0, 0, 0) = 1 \<and> elem w' (1, 0, 0) = 0 \<and> elem w' (2, 2, 2) = 0)"
proof -
  let ?w = "full (3, 3, 3) (0::int)" and ?s = "full (2, 2, 2) (1::int)"
  let ?o = "(- 1, - 1, - 1) :: vec3"
  have h: "\<not> nothing_to_insert (np_shape ?w) (np_shape ?s) ?o"
    by (simp add: np_shape_full nothing_to_insert_def)
  have b: "st_what ?o = (1, 1, 1)"
    "end_what (3, 3, 3) (2, 2, 2) ?o = (2, 2, 2)"
    "st_where ?o = (0, 0, 0)"
    "end_where (3, 3, 3) (2, 2, 2) ?o = (1, 1, 1)"
    by (simp_all add: st_what_def end_what_def st_where_def end_where_def)
  have sh: "np_shape ?w = (3, 3, 3)" "np_shape ?s = (2, 2, 2)"
    by (simp_all add: np_shape_full)
  note t = insert_cropped_copies[OF h, unfolded sh b]
  note ex = t[THEN conjunct2, THEN conjunct2, THEN conjunct2, THEN conjunct2]
  from ex obtain w' where w': "insert_cropped ?w ?s ?o = Inr w'"
    and ins: "\<forall>p. in_box (0, 0, 0) (1, 1, 1) p \<longrightarrow>
          elem w' p = elem ?s (vadd (1, 1, 1) (vsub p (0, 0, 0))) \<and>
          in_bounds ?w p \<and> in_box (1, 1, 1) (2, 2, 2) (vadd (1, 1, 1) (vsub p (0, 0, 0)))"
    and out: "\<forall>p. \<not> in_box (0, 0, 0) (1, 1, 1) p \<longrightarrow> elem w' p = elem ?w p"
    by (elim exE conjE) (rule that)
  have e1: "elem w' (0, 0, 0) = 1"
    using ins[rule_format, of "(0, 0, 0)"] by (simp add: elem_full)
  have e2: "elem w' (1, 0, 0) = 0"
    using out[rule_format, of "(1, 0, 0)"] by (simp add: elem_full)
  have e3: "elem w' (2, 2, 2) = 0"
    using out[rule_format, of "(2, 2, 2)"] by (simp add: elem_full)
  have "\<exists>w'. insert_cropped ?w ?s ?o = Inr w' \<and>
      elem w' (0, 0, 0) = 1 \<and> elem w' (1, 0, 0) = 0 \<and> elem w' (2, 2, 2) = 0"
    by (intro exI[of _ w'] conjI w' e1 e2 e3)
  then show ?thesis
    by (intro conjI h b)
qed


text \<open>
  The third scenario: an origin beyond the destination; a block placed beyond a
  \<open>4 x 4 x 4\<close> window; an ellipsoid centred beyond it.
\<close>

theorem outside_is_noop_witness:
  "nothing_to_insert (np_shape (full (3, 3, 3) (0::int))) (np_shape (full (2, 2, 2) (1::int)))
     (5, 5, 5) \<and>
   nonneg3 ([(2, 2, 2)] ! 0) \<and>
   nothing_to_insert (np_shape (get_slice (full (4, 4, 4) (0::int)) ([(0, 0, 0)] ! 0)
     ([(4, 4, 4)] ! 0))) ([(2, 2, 2)] ! 0) ([(7, 7, 7)] ! 0) \<and>
   any_ge (scan_begin ([(9, 9, 9)] ! 0) ([(1, 1, 1)] ! 0))
     (scan_end ([(0, 0, 0)] ! 0) ([(4, 4, 4)] ! 0) ([(9, 9, 9)] ! 0) ([(1, 1, 1)] ! 0)) \<and>
   insert_cropped (full (3, 3, 3) (0::int)) (full (2, 2, 2) 1) (5, 5, 5)
     = Inr (full (3, 3, 3) 0) \<and>
   rect_item [(0, 0, 0)] [(4, 4, 4)] [(7, 7, 7)] [(2, 2, 2)] 0 (full (4, 4, 4) (0::int))
     = (None, full (4, 4, 4) 0) \<and>
   ellipse_item [(0, 0, 0)] [(4, 4, 4)] [(9, 9, 9)] [(1, 1, 1)] 0 (full (4, 4, 4) (0::int))
     = (None, full (4, 4, 4) 0)"
proof -
  let ?w = "full (3, 3, 3) (0::int)" and ?s = "full (2, 2, 2) (1::int)"
  let ?bm = "full (4, 4, 4) (0::int)"
  have h1: "nothing_to_insert (np_shape ?w) (np_shape ?s) (5, 5, 5)"
    by (simp add: np_shape_full nothing_to_insert_def)
  have n: "nonneg3 ([(2, 2, 2)] ! 0)"
    by simp
  have h2: "nothing_to_insert (np_shape (get_slice ?bm ([(0, 0, 0)] ! 0) ([(4, 4, 4)] ! 0)))
      ([(2, 2, 2)] ! 0) ([(7, 7, 7)] ! 0)"
    by (simp add: np_shape_def get_slice_def full_def slice_lo_def slice_hi_def
        nothing_to_insert_def)
  have h3: "any_ge (scan_begin ([(9, 9, 9)] ! 0) ([(1, 1, 1)] ! 0))
      (scan_end ([(0, 0, 0)] ! 0) ([(4, 4, 4)] ! 0) ([(9, 9, 9)] ! 0) ([(1, 1, 1)] ! 0))"
    by (simp add: scan_begin_def scan_end_def wrap64_def)
  have l: "(0::nat) < length [x]" for x :: vec3
    by simp
  note t = outside_is_noop[where w = ?w and what = ?s and origin = "(5, 5, 5)" and i = 0
      and nodules_size = "[(2, 2, 2)]" and start = "[(0, 0, 0)]" and end_arr = "[(4, 4, 4)]"
      and nodules_start = "[(7, 7, 7)]" and bm = ?bm and centers = "[(9, 9, 9)]"
      and radiuses = "[(1, 1, 1)]"]
  note c1 = t[THEN conjunct1, THEN mp, OF h1]
  note c2 = t[THEN conjunct2, THEN conjunct1, THEN mp, OF conjI[OF l conjI[OF l conjI[OF l
      conjI[OF l conjI[OF n h2]]]]]]
  note c3 = t[THEN conjunct2, THEN conjunct2, THEN mp, OF conjI[OF l conjI[OF l conjI[OF l
      conjI[OF l h3]]]]]
  show ?thesis
    by (intro conjI h1 n h2 h3 c1 c2 c3)
qed

text \<open>
  An ellipsoid of radius one centred at \<open>(2, 2, 2)\<close> of the window \<open>[(1, 1, 1), (6, 6, 6))\<close>
  of an \<open>8 x 8 x 8\<close> mask: the scan range is \<open>[(1, 1, 1), (4, 4, 4))\<close>, the voxel
  \<open>(1, 1, 1)\<close> is scanned and its write index is \<open>(2, 2, 2)\<close>; the element at the address
  \<open>(0, 0, 0)\<close>, outside the window, is not changed.
\<close>

theorem ellipse_scan_range_witness:
  "(0::nat) < length [(2, 2, 2) :: vec3] \<and>
   int64v (vsub ([(2, 2, 2)] ! 0) ([(1, 1, 1)] ! 0)) \<and>
   int64v (vsub ([(6, 6, 6)] ! 0) ([(1, 1, 1)] ! 0)) \<and>
   int64v (vadd ([(2, 2, 2)] ! 0) ([(1, 1, 1)] ! 0)) \<and>
   int64v (vadd (vadd ([(2, 2, 2)] ! 0) ([(1, 1, 1)] ! 0)) (1, 1, 1)) \<and>
   vle ([(1, 1, 1)] ! 0) ([(6, 6, 6)] ! 0) \<and>
   int64v ([(1, 1, 1)] ! 0) \<and> int64v ([(6, 6, 6)] ! 0) \<and>
   region_within (np_shape (full (8, 8, 8) (0::int))) ([(1, 1, 1)] ! 0) ([(6, 6, 6)] ! 0) \<and>
   int64v (np_shape (full (8, 8, 8) (0::int))) \<and>
   scan_begin ([(2, 2, 2)] ! 0) ([(1, 1, 1)] ! 0) = (1, 1, 1) \<and>
   scan_end ([(1, 1, 1)] ! 0) ([(6, 6, 6)] ! 0) ([(2, 2, 2)] ! 0) ([(1, 1, 1)] ! 0) = (4, 4, 4) \<and>
   (1, 1, 1) \<in> set (box_points (scan_begin ([(2, 2, 2)] ! 0) ([(1, 1, 1)] ! 0))
     (scan_end ([(1, 1, 1)] ! 0) ([(6, 6, 6)] ! 0) ([(2, 2, 2)] ! 0) ([(1, 1, 1)] ! 0))) \<and>
   wadd (1, 1, 1) ([(1, 1, 1)] ! 0) = vadd (1, 1, 1) ([(1, 1, 1)] ! 0) \<and>
   in_box ([(1, 1, 1)] ! 0) ([(6, 6, 6)] ! 0) (vadd (1, 1, 1) ([(1, 1, 1)] ! 0)) \<and>
   fst (ellipse_item [(1, 1, 1)] [(6, 6, 6)] [(2, 2, 2)] [(1, 1, 1)] 0
     (full (8, 8, 8) (0::int))) \<noteq> Some UncheckedAccess \<and>
   in_bounds (full (8, 8, 8) (0::int)) (vadd (1, 1, 1) ([(1, 1, 1)] ! 0)) \<and>
   buf (snd (ellipse_item [(1, 1, 1)] [(6, 6, 6)] [(2, 2, 2)] [(1, 1, 1)] 0
     (full (8, 8, 8) (0::int)))) (0, 0, 0) = buf (full (8, 8, 8) (0::int)) (0, 0, 0)"
proof -
  let ?bm = "full (8, 8, 8) (0::int)"
  have l: "(0::nat) < length [x]" for x :: vec3
    by simp
  have q: "[x] ! 0 = x" for x :: vec3
    by simp
  have n1: "int64v (vsub ([(2, 2, 2)] ! 0) ([(1, 1, 1)] ! 0))"
    and n2: "int64v (vsub ([(6, 6, 6)] ! 0) ([(1, 1, 1)] ! 0))"
    and n3: "int64v (vadd ([(2, 2, 2)] ! 0) ([(1, 1, 1)] ! 0))"
    and n4: "int64v (vadd (vadd ([(2, 2, 2)] ! 0) ([(1, 1, 1)] ! 0)) (1, 1, 1))"
    and o1: "vle ([(1, 1, 1)] ! 0) ([(6, 6, 6)] ! 0)"
    and o2: "int64v ([(1, 1, 1)] ! 0)" and o3: "int64v ([(6, 6, 6)] ! 0)"
    by (simp_all add: int64_def)
  have w1: "region_within (np_shape ?bm) ([(1, 1, 1)] ! 0) ([(6, 6, 6)] ! 0)"
    and w2: "int64v (np_shape ?bm)"
    by (simp_all add: np_shape_full int64_def)
  note t = ellipse_scan_range[where i = 0 and centers = "[(2, 2, 2)]" and radiuses = "[(1, 1, 1)]"
      and end_arr = "[(6, 6, 6)]" and start = "[(1, 1, 1)]" and bm = ?bm, OF l l l l q q q q]
  note ex = t[THEN conjunct2, THEN conjunct2, THEN conjunct2, THEN conjunct1, THEN mp,
      OF conjI[OF n1 conjI[OF n2 conjI[OF n3 n4]]]]
  have b: "scan_begin ([(2, 2, 2)] ! 0) ([(1, 1, 1)] ! 0) = (1, 1, 1)"
    "scan_end ([(1, 1, 1)] ! 0) ([(6, 6, 6)] ! 0) ([(2, 2, 2)] ! 0) ([(1, 1, 1)] ! 0) = (4, 4, 4)"
    using ex by simp_all
  have m: "(1, 1, 1) \<in> set (box_points (scan_begin ([(2, 2, 2)] ! 0) ([(1, 1, 1)] ! 0))
     (scan_end ([(1, 1, 1)] ! 0) ([(6, 6, 6)] ! 0) ([(2, 2, 2)] ! 0) ([(1, 1, 1)] ! 0)))"
    unfolding b set_box_points by simp
  note inw = t[THEN conjunct2, THEN conjunct2, THEN conjunct2, THEN conjunct2, THEN conjunct2,
      THEN conjunct1, THEN mp, OF conjI[OF o1 conjI[OF o2 o3]], THEN bspec, OF m]
  note fr = t[THEN conjunct2, THEN conjunct2, THEN conjunct2, THEN conjunct2, THEN conjunct2,
      THEN conjunct2, THEN mp, OF conjI[OF w1 w2]]
  have out: "\<not> in_box ([(1, 1, 1)] ! 0) ([(6, 6, 6)] ! 0) (vsub (0, 0, 0) (off ?bm))"
    by (simp add: full_def)
  have same: "buf (snd (ellipse_item [(1, 1, 1)] [(6, 6, 6)] [(2, 2, 2)] [(1, 1, 1)] 0 ?bm))
      (0, 0, 0) = buf ?bm (0, 0, 0)"
    using fr[THEN conjunct2, THEN conjunct2, THEN spec, of "(0, 0, 0)"] out by blast
  note wr = fr[THEN conjunct2, THEN conjunct1, THEN bspec, OF m, THEN conjunct1]
  show ?thesis
    by (intro conjI l n1 n2 n3 n4 o1 o2 o3 w1 w2 b m inw[THEN conjunct2, THEN conjunct1]
        inw[THEN conjunct2, THEN conjunct2] fr[THEN conjunct1] wr same)
qed



section \<open>Binary64 rounding\<close>

subsection \<open>Rounding to the nearest integer\<close>

lemma rint_cases:
  "rint x = \<lfloor>x\<rfloor> \<or> rint x = \<lfloor>x\<rfloor> + 1"
  by (simp add: rint_def Let_def)

lemma rint_of_int [simp]: "rint (of_int n) = n"
  by (simp add: rint_def)

lemma rint_mono: "x \<le> y \<Longrightarrow> rint x \<le> rint y"
proof -
  assume xy: "x \<le> y"
  then have fl: "\<lfloor>x\<rfloor> \<le> \<lfloor>y\<rfloor>" by (rule floor_mono)
  show ?thesis
  proof (cases "\<lfloor>x\<rfloor> = \<lfloor>y\<rfloor>")
    case False
    with fl have "\<lfloor>x\<rfloor> + 1 \<le> \<lfloor>y\<rfloor>" by simp
    moreover have "rint x \<le> \<lfloor>x\<rfloor> + 1" using rint_cases[of x] by auto
    moreover have "\<lfloor>y\<rfloor> \<le> rint y" using rint_cases[of y] by auto
    ultimately show ?thesis by linarith
  next
    case True
    then have "x - of_int \<lfloor>x\<rfloor> \<le> y - of_int \<lfloor>y\<rfloor>" using xy by simp
    then show ?thesis
      using True by (simp add: rint_def Let_def)
  qed
qed

lemma rint_nearest:
  "\<bar>of_int (rint x) - x\<bar> \<le> 1 / 2"
  and rint_tie_even: "\<bar>of_int (rint x) - x\<bar> = 1 / 2 \<Longrightarrow> even (rint x)"
proof -
  define f where "f = \<lfloor>x\<rfloor>"
  have a: "of_int f \<le> x" "x < of_int f + 1"
    unfolding f_def by linarith+
  have r: "rint x = (if x - of_int f < 1 / 2 then f else if 1 / 2 < x - of_int f then f + 1
      else if even f then f else f + 1)"
    by (simp add: rint_def Let_def f_def)
  show "\<bar>of_int (rint x) - x\<bar> \<le> 1 / 2"
    unfolding r using a by (simp add: abs_if)
  show "\<bar>of_int (rint x) - x\<bar> = 1 / 2 \<Longrightarrow> even (rint x)"
    unfolding r using a by (simp add: abs_if split: if_splits)
qed

lemma rint_neg: "rint (- x) = - rint x"
proof (cases "x \<in> \<int>")
  case True
  then obtain n where "x = of_int n" by (auto elim: Ints_cases)
  then show ?thesis
    by (simp add: rint_def flip: of_int_minus)
next
  case False
  define f where "f = \<lfloor>x\<rfloor>"
  have ne: "of_int f \<noteq> x"
    using False by (metis Ints_of_int)
  have a: "of_int f < x" "x < of_int f + 1"
    using ne unfolding f_def by linarith+
  have fl: "\<lfloor>- x\<rfloor> = - f - 1"
    by (rule floor_unique) (use a in simp_all)
  have r: "rint x = (if x - of_int f < 1 / 2 then f else if 1 / 2 < x - of_int f then f + 1
      else if even f then f else f + 1)"
    by (simp add: rint_def Let_def f_def)
  have r': "rint (- x) = (if - x - of_int (- f - 1) < 1 / 2 then - f - 1
      else if 1 / 2 < - x - of_int (- f - 1) then - f - 1 + 1
      else if even (- f - 1) then - f - 1 else - f - 1 + 1)"
    unfolding rint_def Let_def fl ..
  show ?thesis
    unfolding r r' using a by (simp split: if_splits)
qed


subsection \<open>The binary exponent\<close>

lemma of_int_le_pow2: "n \<le> 2 ^ j \<Longrightarrow> (of_int n :: rat) \<le> 2 ^ j"
  by (metis of_int_le_iff of_int_numeral of_int_power)

lemma pow2_le_of_int: "2 ^ j \<le> n \<Longrightarrow> (2::rat) ^ j \<le> of_int n"
  by (metis of_int_le_iff of_int_numeral of_int_power)

lemma floor_log2_bounds:
  assumes "0 < x"
  shows "2 powi floor_log2 x \<le> x" and "x < 2 powi (floor_log2 x + 1)"
proof -
  have "2 powi floor_log2 x \<le> x \<and> x < 2 powi (floor_log2 x + 1)"
  proof (cases "1 \<le> x")
    case True
    define m where "m = \<lfloor>x\<rfloor>"
    have m: "0 < m" "of_int m \<le> x" "x < of_int m + 1"
      using True unfolding m_def by linarith+
    define k where "k = nat (bitlen m - 1)"
    have bl: "bitlen m = int k + 1"
      using bitlen_bounds[OF m(1)] m(1) unfolding k_def
      by (metis add.commute bitlen_eq_zero_iff bitlen_nonneg diff_add_cancel int_nat_eq
          le_less not_less zle_diff1_eq)
    have b: "2 ^ k \<le> m" "m < 2 ^ (k + 1)"
      using bitlen_bounds[OF m(1)] unfolding bl by (simp_all add: nat_add_distrib)
    have fl: "floor_log2 x = int k"
      using True by (simp add: floor_log2_def m_def[symmetric] bl)
    have "(2::rat) ^ k \<le> of_int m"
      using b(1) by (rule pow2_le_of_int)
    moreover have "of_int m + 1 \<le> (2::rat) ^ (k + 1)"
    proof -
      have "m + 1 \<le> 2 ^ (k + 1)" using b(2) by simp
      then have "(of_int (m + 1) :: rat) \<le> 2 ^ (k + 1)"
        by (rule of_int_le_pow2)
      then show ?thesis by simp
    qed
    moreover have "2 powi int k = (2::rat) ^ k" "2 powi (int k + 1) = (2::rat) ^ (k + 1)"
      by (simp_all add: power_int_add)
    ultimately show ?thesis
      using m(2,3) unfolding fl by (intro conjI; linarith)
  next
    case False
    define y where "y = 1 / x"
    have y: "1 < y" using False assms unfolding y_def by simp
    define n where "n = \<lceil>y\<rceil>"
    have n: "of_int n - 1 < y" "y \<le> of_int n" "1 < n"
      using y unfolding n_def by linarith+
    define j where "j = nat (bitlen (n - 1))"
    have pos: "0 < n - 1" using n(3) by simp
    have bl: "bitlen (n - 1) = int j"
      unfolding j_def using bitlen_nonneg[of "n - 1"] by simp
    have j1: "1 \<le> j"
      using bitlen_eq_zero_iff[of "n - 1"] pos bl by (cases j) auto
    have b: "2 ^ (j - 1) \<le> n - 1" "n - 1 < 2 ^ j"
      using bitlen_bounds[OF pos] j1 unfolding bl by (simp_all add: nat_diff_distrib)
    have fl: "floor_log2 x = - int j"
      using False by (simp add: floor_log2_def y_def[symmetric] n_def[symmetric] bl)
    have u: "y \<le> 2 ^ j"
    proof -
      have "n \<le> 2 ^ j" using b(2) by simp
      then have "(of_int n :: rat) \<le> 2 ^ j" by (rule of_int_le_pow2)
      with n(2) show ?thesis by linarith
    qed
    have l: "2 ^ (j - 1) < y"
    proof -
      have "(2::rat) ^ (j - 1) \<le> of_int (n - 1)"
        using b(1) by (rule pow2_le_of_int)
      then have "(2::rat) ^ (j - 1) \<le> of_int n - 1" by simp
      with n(1) show ?thesis by linarith
    qed
    have xy: "x = 1 / y" unfolding y_def using assms by simp
    have p1: "2 powi (- int j) = 1 / (2::rat) ^ j"
      by (simp add: power_int_minus divide_inverse)
    have p2: "2 powi (- int j + 1) = 1 / (2::rat) ^ (j - 1)"
    proof -
      have e: "- int j + 1 = - int (j - 1)" using j1 by simp
      show ?thesis unfolding e by (simp add: power_int_minus divide_inverse)
    qed
    have "1 / (2::rat) ^ j \<le> 1 / y"
      using u y by (simp add: frac_le)
    moreover have "1 / y < 1 / (2::rat) ^ (j - 1)"
      using l by (simp add: frac_less2)
    ultimately show ?thesis
      unfolding fl p1 p2 xy[symmetric] by blast
  qed
  then show "2 powi floor_log2 x \<le> x" and "x < 2 powi (floor_log2 x + 1)"
    by simp_all
qed

lemma floor_log2_mono:
  assumes "0 < x" "x \<le> y"
  shows "floor_log2 x \<le> floor_log2 y"
proof (rule ccontr)
  assume "\<not> floor_log2 x \<le> floor_log2 y"
  then have "floor_log2 y + 1 \<le> floor_log2 x" by simp
  then have "(2::rat) powi (floor_log2 y + 1) \<le> 2 powi floor_log2 x"
    by (intro power_int_increasing) simp_all
  also have "\<dots> \<le> x" using floor_log2_bounds(1)[OF assms(1)] .
  also have "\<dots> \<le> y" by fact
  also have "\<dots> < 2 powi (floor_log2 y + 1)"
    using floor_log2_bounds(2)[of y] assms by simp
  finally show False by simp
qed


subsection \<open>Rounding is odd and monotone\<close>

lemma rnd64_alt: "x \<noteq> 0 \<Longrightarrow> rnd64 x = of_int (rint (x / 2 powi ulp_exp x)) * 2 powi ulp_exp x"
  by (simp add: rnd64_def)

lemma rnd64_zero [simp]: "rnd64 0 = 0"
  by (simp add: rnd64_def)

lemma pow2_pos [simp]: "0 < (2::rat) powi k"
  by (simp add: zero_less_power_int)

lemma rnd64_neg: "rnd64 (- x) = - rnd64 x"
proof (cases "x = 0")
  case True
  then show ?thesis by simp
next
  case False
  have e: "ulp_exp (- x) = ulp_exp x" by (simp add: ulp_exp_def)
  have "rint (- x / 2 powi ulp_exp x) = - rint (x / 2 powi ulp_exp x)"
    using rint_neg[of "x / 2 powi ulp_exp x"] by simp
  then show ?thesis
    using False by (simp add: rnd64_alt e)
qed

lemma rint_nonneg: "0 \<le> x \<Longrightarrow> 0 \<le> rint x"
  using rint_mono[of 0 x] rint_of_int[of 0] by simp

lemma rnd64_nonneg: "0 \<le> x \<Longrightarrow> 0 \<le> rnd64 x"
proof (cases "x = 0")
  case True
  then show ?thesis by simp
next
  case False
  assume "0 \<le> x"
  then have "0 \<le> x / 2 powi ulp_exp x" by simp
  then have "0 \<le> rint (x / 2 powi ulp_exp x)" by (rule rint_nonneg)
  then show ?thesis
    using False by (simp add: rnd64_alt)
qed

lemma ulp_exp_mono:
  assumes "0 < x" "x \<le> y"
  shows "ulp_exp x \<le> ulp_exp y"
  using floor_log2_mono[OF assms] assms by (simp add: ulp_exp_def)

lemma rnd64_mono_pos:
  assumes "0 < x" "x \<le> y"
  shows "rnd64 x \<le> rnd64 y"
proof -
  have y: "0 < y" using assms by simp
  let ?ex = "ulp_exp x" and ?ey = "ulp_exp y"
  have rx: "rnd64 x = of_int (rint (x / 2 powi ?ex)) * 2 powi ?ex"
    using assms(1) by (simp add: rnd64_alt)
  have ry: "rnd64 y = of_int (rint (y / 2 powi ?ey)) * 2 powi ?ey"
    using y by (simp add: rnd64_alt)
  have le: "?ex \<le> ?ey" using assms by (rule ulp_exp_mono)
  show ?thesis
  proof (cases "?ex = ?ey")
    case True
    have "x / 2 powi ?ex \<le> y / 2 powi ?ex"
      using assms(2) by (simp add: divide_right_mono)
    then have "rint (x / 2 powi ?ex) \<le> rint (y / 2 powi ?ex)" by (rule rint_mono)
    then have "(of_int (rint (x / 2 powi ?ex)) :: rat) \<le> of_int (rint (y / 2 powi ?ex))"
      by simp
    then show ?thesis
      unfolding rx ry True[symmetric] by (simp add: mult_right_mono)
  next
    case False
    with le have lt: "?ex + 1 \<le> ?ey" by simp
    have ey: "?ey = floor_log2 y - 52"
      using lt y by (simp add: ulp_exp_def max_def split: if_splits)
    have ex: "floor_log2 x - 52 \<le> ?ex"
      using assms(1) by (simp add: ulp_exp_def)
    have "x < 2 powi (floor_log2 x + 1)" using floor_log2_bounds(2)[OF assms(1)] .
    also have "\<dots> \<le> 2 powi (?ex + 53)"
      using ex by (intro power_int_increasing) simp_all
    finally have xb: "x < 2 powi (?ex + 53)" .
    have split53: "(2::rat) powi (?ex + 53) = 2 ^ 53 * 2 powi ?ex"
      by (simp add: power_int_add)
    have "x / 2 powi ?ex \<le> 2 ^ 53"
      using xb unfolding split53 by (simp add: pos_divide_le_eq)
    then have "rint (x / 2 powi ?ex) \<le> rint (of_int (2 ^ 53))"
      by (intro rint_mono) simp
    then have "rint (x / 2 powi ?ex) \<le> 2 ^ 53" by (simp only: rint_of_int)
    then have "(of_int (rint (x / 2 powi ?ex)) :: rat) \<le> 2 ^ 53"
      by (rule of_int_le_pow2)
    then have "rnd64 x \<le> 2 ^ 53 * 2 powi ?ex"
      unfolding rx by (simp add: mult_right_mono)
    also have "\<dots> = 2 powi (?ex + 53)" by (simp add: split53)
    also have "\<dots> \<le> 2 powi (?ey + 52)"
      using lt by (intro power_int_increasing) simp_all
    finally have ub: "rnd64 x \<le> 2 powi (?ey + 52)" .
    have split52: "(2::rat) powi (?ey + 52) = 2 ^ 52 * 2 powi ?ey"
      by (simp add: power_int_add)
    have "2 powi (?ey + 52) \<le> y"
      using floor_log2_bounds(1)[OF y] unfolding ey by simp
    then have "2 ^ 52 \<le> y / 2 powi ?ey"
      unfolding split52 by (simp add: pos_le_divide_eq)
    then have "rint (of_int (2 ^ 52)) \<le> rint (y / 2 powi ?ey)"
      by (intro rint_mono) simp
    then have "2 ^ 52 \<le> rint (y / 2 powi ?ey)" by (simp only: rint_of_int)
    then have "(2::rat) ^ 52 \<le> of_int (rint (y / 2 powi ?ey))"
      by (rule pow2_le_of_int)
    then have "2 ^ 52 * 2 powi ?ey \<le> rnd64 y"
      unfolding ry by (simp add: mult_right_mono)
    then have lb: "2 powi (?ey + 52) \<le> rnd64 y" by (simp add: split52)
    from ub lb show ?thesis by linarith
  qed
qed

lemma rnd64_mono: "x \<le> y \<Longrightarrow> rnd64 x \<le> rnd64 y"
proof -
  assume xy: "x \<le> y"
  consider "0 < x" | "x \<le> 0" "0 \<le> y" | "y < 0" by linarith
  then show ?thesis
  proof cases
    case 1
    then show ?thesis using xy by (rule rnd64_mono_pos)
  next
    case 2
    have "rnd64 x \<le> 0"
      using rnd64_nonneg[of "- x"] 2(1) by (simp add: rnd64_neg)
    moreover have "0 \<le> rnd64 y" using 2(2) by (rule rnd64_nonneg)
    ultimately show ?thesis by simp
  next
    case 3
    have "rnd64 (- y) \<le> rnd64 (- x)"
      using 3 xy by (intro rnd64_mono_pos) simp_all
    then show ?thesis by (simp add: rnd64_neg)
  qed
qed


subsection \<open>Evaluating a rounding\<close>

text \<open>
  A rounding is determined by the binade \<open>[2^k, 2^(k+1))\<close> of its argument and the integer
  nearest to the argument scaled by \<open>2^(52-k)\<close>; both are checked by numeral arithmetic.
\<close>

lemma floor_log2_unique:
  assumes "2 powi k \<le> x" "x < 2 powi (k + 1)"
  shows "floor_log2 x = k"
proof -
  have pos: "0 < x"
    using assms(1) pow2_pos[of k] by linarith
  note b = floor_log2_bounds[OF pos]
  have "\<not> floor_log2 x + 1 \<le> k"
  proof
    assume "floor_log2 x + 1 \<le> k"
    then have "(2::rat) powi (floor_log2 x + 1) \<le> 2 powi k"
      by (intro power_int_increasing) simp_all
    with b(2) assms(1) show False by linarith
  qed
  moreover have "\<not> k + 1 \<le> floor_log2 x"
  proof
    assume "k + 1 \<le> floor_log2 x"
    then have "(2::rat) powi (k + 1) \<le> 2 powi floor_log2 x"
      by (intro power_int_increasing) simp_all
    with b(1) assms(2) show False by linarith
  qed
  ultimately show ?thesis by linarith
qed

lemma rint_eval:
  assumes "of_int m - 1 / 2 < x" "x < of_int m + 1 / 2"
  shows "rint x = m"
proof -
  have "\<bar>of_int (rint x) - x\<bar> \<le> 1 / 2" by (rule rint_nearest)
  with assms have "\<bar>(of_int (rint x) :: rat) - of_int m\<bar> < 1" by linarith
  then have "\<bar>(of_int (rint x - m) :: rat)\<bar> < 1" by simp
  then have "\<bar>rint x - m\<bar> < 1"
    by (metis of_int_abs of_int_less_1_iff)
  then show ?thesis by linarith
qed

lemma rnd64_eval:
  assumes "2 powi k \<le> x" "x < 2 powi (k + 1)" "- 1022 \<le> k"
    and "of_int m - 1 / 2 < x / 2 powi (k - 52)" "x / 2 powi (k - 52) < of_int m + 1 / 2"
  shows "rnd64 x = of_int m * 2 powi (k - 52)"
proof -
  have pos: "0 < x"
    using assms(1) pow2_pos[of k] by linarith
  have fl: "floor_log2 \<bar>x\<bar> = k"
    using floor_log2_unique[OF assms(1,2)] pos by simp
  have e: "ulp_exp x = k - 52"
    using assms(3) by (simp add: ulp_exp_def fl)
  have "rint (x / 2 powi (k - 52)) = m"
    using assms(4,5) by (rule rint_eval)
  then show ?thesis
    using pos by (simp add: rnd64_def e)
qed

lemma rnd64_one [simp]: "rnd64 1 = 1"
  using rnd64_eval[of 0 1 "2 ^ 52"] by (simp add: power_int_minus)

lemma rnd64_minus_one [simp]: "rnd64 (- 1) = - 1"
  by (simp add: rnd64_neg)

lemma float_of_int_nonzero: "n \<noteq> 0 \<Longrightarrow> float_of_int n \<noteq> 0"
proof -
  assume n: "n \<noteq> 0"
  consider "1 \<le> n" | "n \<le> - 1" using n by linarith
  then show ?thesis
  proof cases
    case 1
    then have "rnd64 1 \<le> rnd64 (of_int n)" by (intro rnd64_mono) simp
    then show ?thesis by (simp add: float_of_int_def)
  next
    case 2
    then have "rnd64 (of_int n) \<le> rnd64 (- 1)" by (intro rnd64_mono) simp
    then show ?thesis by (simp add: float_of_int_def)
  qed
qed

lemma float_of_int_neg: "float_of_int (- n) = - float_of_int n"
  by (simp add: float_of_int_def rnd64_neg)

lemma true_divide_self: "r \<noteq> 0 \<Longrightarrow> true_divide r r = 1"
  using float_of_int_nonzero[of r] by (simp add: true_divide_def fdiv_def)

lemma true_divide_neg_self: "r \<noteq> 0 \<Longrightarrow> true_divide (- r) r = - 1"
  using float_of_int_nonzero[of r] by (simp add: true_divide_def fdiv_def float_of_int_neg)

lemma true_divide_zero: "true_divide 0 r = 0"
  by (simp add: true_divide_def fdiv_def float_of_int_def)

lemma fsquare_simps: "fsquare 0 = 0" "fsquare 1 = 1" "fsquare (- 1) = 1"
  by (simp_all add: fsquare_def fmul_def)

lemma fadd_simps: "fadd 0 0 = 0" "fadd 1 0 = 1" "fadd 0 1 = 1"
  by (simp_all add: fadd_def)


subsection \<open>The test at radius 7 and offset \<open>(2, 3, 6)\<close>\<close>

text \<open>
  Each lemma rounds one intermediate value of
  \<open>(2/7) ** 2 + (3/7) ** 2 + (6/7) ** 2\<close>: the three quotients, their squares, and the two
  sums. The result is \<open>1 - 2^-53\<close>, the double printed as \<open>0.9999999999999999\<close>.
\<close>

lemma rnd64_2: "rnd64 (2) = 2"
  using rnd64_eval[of "1" "2" "4503599627370496"] by (simp add: power_int_minus)

lemma rnd64_3: "rnd64 (3) = 3"
  using rnd64_eval[of "1" "3" "6755399441055744"] by (simp add: power_int_minus)

lemma rnd64_6: "rnd64 (6) = 6"
  using rnd64_eval[of "2" "6" "6755399441055744"] by (simp add: power_int_minus)

lemma rnd64_7: "rnd64 (7) = 7"
  using rnd64_eval[of "2" "7" "7881299347898368"] by (simp add: power_int_minus)

lemma ce_d1: "rnd64 (2 / 7) = 2573485501354569 / 9007199254740992"
  using rnd64_eval[of "-2" "2 / 7" "5146971002709138"] by (simp add: power_int_minus)

lemma ce_d2: "rnd64 (3 / 7) = 7720456504063707 / 18014398509481984"
  using rnd64_eval[of "-2" "3 / 7" "7720456504063707"] by (simp add: power_int_minus)

lemma ce_d3: "rnd64 (6 / 7) = 7720456504063707 / 9007199254740992"
  using rnd64_eval[of "-1" "6 / 7" "7720456504063707"] by (simp add: power_int_minus)

lemma ce_q1: "rnd64 (6622827625682177362333857175761 / 81129638414606681695789005144064) = 5882252574524729 / 72057594037927936"
  using rnd64_eval[of "-4" "6622827625682177362333857175761 / 81129638414606681695789005144064" "5882252574524729"] by (simp add: power_int_minus)

lemma ce_q2: "rnd64 (59605448631139596261004714581849 / 324518553658426726783156020576256) = 206797942073135 / 1125899906842624"
  using rnd64_eval[of "-3" "59605448631139596261004714581849 / 324518553658426726783156020576256" "6617534146340320"] by (simp add: power_int_minus)

lemma ce_q3: "rnd64 (59605448631139596261004714581849 / 81129638414606681695789005144064) = 206797942073135 / 281474976710656"
  using rnd64_eval[of "-1" "59605448631139596261004714581849 / 81129638414606681695789005144064" "6617534146340320"] by (simp add: power_int_minus)

lemma ce_s1: "rnd64 (19117320867205369 / 72057594037927936) = 2389665108400671 / 9007199254740992"
  using rnd64_eval[of "-2" "19117320867205369 / 72057594037927936" "4779330216801342"] by (simp add: power_int_minus)

lemma ce_s2: "rnd64 (9007199254740991 / 9007199254740992) = 9007199254740991 / 9007199254740992"
  using rnd64_eval[of "-1" "9007199254740991 / 9007199254740992" "9007199254740991"] by (simp add: power_int_minus)

lemma ce_form: "quadratic_form (9, 10, 13) (7, 7, 7) (7, 7, 7) = 9007199254740991 / 9007199254740992"
proof -
  have t: "true_divide 2 7 = 2573485501354569 / 9007199254740992" "true_divide 3 7 = 7720456504063707 / 18014398509481984" "true_divide 6 7 = 7720456504063707 / 9007199254740992"
    by (simp_all add: true_divide_def fdiv_def float_of_int_def rnd64_2 rnd64_3 rnd64_6 rnd64_7
        ce_d1 ce_d2 ce_d3)
  have q: "fsquare (2573485501354569 / 9007199254740992) = 5882252574524729 / 72057594037927936" "fsquare (7720456504063707 / 18014398509481984) = 206797942073135 / 1125899906842624" "fsquare (7720456504063707 / 9007199254740992) = 206797942073135 / 281474976710656"
    by (simp_all add: fsquare_def fmul_def ce_q1 ce_q2 ce_q3)
  have s1: "fadd (5882252574524729 / 72057594037927936) (206797942073135 / 1125899906842624) = 2389665108400671 / 9007199254740992"
    by (simp add: fadd_def ce_s1)
  have s2: "fadd (2389665108400671 / 9007199254740992) (206797942073135 / 281474976710656) = 9007199254740991 / 9007199254740992"
    by (simp add: fadd_def ce_s2)
  have w: "wrap64 2 = 2" "wrap64 3 = 3" "wrap64 6 = 6"
    by (simp_all add: wrap64_def)
  show ?thesis
    by (simp add: w t q s1 s2)
qed


section \<open>The membership test of the ellipsoid filler\<close>

text \<open>
  With every write index inside the mask, the loop over a list of voxels sets exactly the
  voxels that pass the test, and the loop over the items sets those of every item.
\<close>

lemma ellipse_voxel_step:
  assumes "\<not> has_zero r" and "in_bounds bm (vadd v s)" and "wadd v s = vadd v s"
  shows "ellipse_voxel s c r v bm =
    (None, if quadratic_form v c r < 1
           then bm\<lparr>buf := (buf bm)(vadd (off bm) (vadd v s) := 1)\<rparr> else bm)"
  using assms(1)
  by (simp add: ellipse_voxel_def ellipse_test_def assms(3) set_item_in_bounds[OF assms(2)])

lemma ellipse_voxels_result:
  assumes "\<not> has_zero r"
    and "\<forall>v \<in> set vs. in_bounds bm (vadd v s) \<and> wadd v s = vadd v s"
  shows "for_each (ellipse_voxel s c r) vs bm =
    (None, bm\<lparr>buf := (\<lambda>q. if \<exists>v \<in> set vs. quadratic_form v c r < 1 \<and>
                                   q = vadd (off bm) (vadd v s)
                             then 1 else buf bm q)\<rparr>)"
  using assms(2)
proof (induction vs arbitrary: bm)
  case Nil
  then show ?case by simp
next
  case (Cons v vs)
  let ?bm1 = "if quadratic_form v c r < 1
      then bm\<lparr>buf := (buf bm)(vadd (off bm) (vadd v s) := 1)\<rparr> else bm"
  have st: "ellipse_voxel s c r v bm = (None, ?bm1)"
    using assms(1) Cons.prems by (simp add: ellipse_voxel_step)
  have sh: "in_bounds ?bm1 = in_bounds bm" "off ?bm1 = off bm"
    by (auto simp: in_bounds_def np_shape_def)
  have "\<forall>v \<in> set vs. in_bounds ?bm1 (vadd v s) \<and> wadd v s = vadd v s"
    using Cons.prems unfolding sh by simp
  from Cons.IH[OF this]
  have ih: "for_each (ellipse_voxel s c r) vs ?bm1 =
    (None, ?bm1\<lparr>buf := (\<lambda>q. if \<exists>v \<in> set vs. quadratic_form v c r < 1 \<and>
                                   q = vadd (off bm) (vadd v s)
                             then 1 else buf ?bm1 q)\<rparr>)"
    unfolding sh .
  have eq: "?bm1\<lparr>buf := (\<lambda>q. if \<exists>v \<in> set vs. quadratic_form v c r < 1 \<and>
                                   q = vadd (off bm) (vadd v s)
                             then 1 else buf ?bm1 q)\<rparr>
      = bm\<lparr>buf := (\<lambda>q. if \<exists>v' \<in> set (v # vs). quadratic_form v' c r < 1 \<and>
                                   q = vadd (off bm) (vadd v' s)
                             then 1 else buf bm q)\<rparr>"
    by (rule ndarray.equality) (auto intro!: ext)
  have "for_each (ellipse_voxel s c r) (v # vs) bm =
      (case (None, ?bm1) of (Some e, s') \<Rightarrow> (Some e, s')
       | (None, s') \<Rightarrow> for_each (ellipse_voxel s c r) vs s')"
    unfolding for_each.simps st ..
  also have "\<dots> = for_each (ellipse_voxel s c r) vs ?bm1"
    by (simp only: prod.case option.case)
  finally show ?case
    unfolding ih eq .
qed

lemma vadd_vsub_same: "vadd (vsub p s) s = p" and vsub_vadd_same: "vsub (vadd v s) s = v"
  by (cases p; cases s; simp) (cases v; cases s; simp)

lemma vadd_left_cancel: "vadd a p = vadd a q \<longleftrightarrow> p = q"
  by (cases a; cases p; cases q) auto

text \<open>
  The voxel at index \<open>p\<close> of the mask is set by item \<open>i\<close>: its window-relative coordinates
  are in the scan range and pass the test.
\<close>

lemma ellipse_item_result:
  assumes "i < length centers" "i < length radiuses" "i < length end_arr" "i < length start"
    and "region_within (np_shape bm) (start ! i) (end_arr ! i)" and "int64v (np_shape bm)"
    and "\<not> has_zero (radiuses ! i)"
  shows "ellipse_item start end_arr centers radiuses i bm =
    (None, bm\<lparr>buf := (\<lambda>q. if in_box (scan_begin (centers ! i) (radiuses ! i))
                               (scan_end (start ! i) (end_arr ! i) (centers ! i) (radiuses ! i))
                               (vsub (vsub q (off bm)) (start ! i)) \<and>
                             quadratic_form (vsub (vsub q (off bm)) (start ! i))
                               (centers ! i) (radiuses ! i) < 1
                          then 1 else buf bm q)\<rparr>)"
proof -
  let ?c = "centers ! i" and ?r = "radiuses ! i" and ?s = "start ! i" and ?e = "end_arr ! i"
  let ?vs = "box_points (scan_begin ?c ?r) (scan_end ?s ?e ?c ?r)"
  note w = region_within_int64[OF assms(5,6)]
  have ok: "\<forall>v \<in> set ?vs. in_bounds bm (vadd v ?s) \<and> wadd v ?s = vadd v ?s"
  proof
    fix v assume "v \<in> set ?vs"
    then have bx: "in_box (scan_begin ?c ?r) (scan_end ?s ?e ?c ?r) v"
      by (simp add: set_box_points)
    note ex = scan_box_exact[OF bx w(1-3)]
    have "in_bounds bm (vadd v ?s)"
      unfolding in_bounds_def using assms(5) ex(3) by (rule region_within_in_box)
    with ex(2) show "in_bounds bm (vadd v ?s) \<and> wadd v ?s = vadd v ?s" by simp
  qed
  have iff: "(\<exists>v \<in> set ?vs. quadratic_form v ?c ?r < 1 \<and> q = vadd (off bm) (vadd v ?s))
      \<longleftrightarrow> in_box (scan_begin ?c ?r) (scan_end ?s ?e ?c ?r) (vsub (vsub q (off bm)) ?s) \<and>
          quadratic_form (vsub (vsub q (off bm)) ?s) ?c ?r < 1" for q
  proof
    assume "\<exists>v \<in> set ?vs. quadratic_form v ?c ?r < 1 \<and> q = vadd (off bm) (vadd v ?s)"
    then obtain v where v: "v \<in> set ?vs" "quadratic_form v ?c ?r < 1"
      "q = vadd (off bm) (vadd v ?s)"
      by auto
    have "vsub q (off bm) = vadd v ?s"
      using v(3) by (simp add: vsub_eq_iff)
    then have "vsub (vsub q (off bm)) ?s = v" by (simp add: vsub_vadd_same)
    with v show "in_box (scan_begin ?c ?r) (scan_end ?s ?e ?c ?r) (vsub (vsub q (off bm)) ?s) \<and>
          quadratic_form (vsub (vsub q (off bm)) ?s) ?c ?r < 1"
      by (simp add: set_box_points)
  next
    let ?v = "vsub (vsub q (off bm)) ?s"
    assume a: "in_box (scan_begin ?c ?r) (scan_end ?s ?e ?c ?r) ?v \<and>
          quadratic_form ?v ?c ?r < 1"
    then have m: "?v \<in> set ?vs" by (simp add: set_box_points)
    have "vadd (off bm) (vadd ?v ?s) = q"
      by (cases q; cases "off bm"; cases ?s) simp
    with a m show "\<exists>v \<in> set ?vs. quadratic_form v ?c ?r < 1 \<and>
        q = vadd (off bm) (vadd v ?s)"
      by (intro bexI[of _ ?v]) simp_all
  qed
  show ?thesis
    unfolding ellipse_item_loop[OF assms(1-4)] ellipse_voxels_result[OF assms(7) ok] iff ..
qed

text \<open>The items \<open>js\<close>, run in order.\<close>

lemma ellipse_items_result:
  assumes "\<forall>i \<in> set js. i < length centers \<and> i < length radiuses \<and> i < length end_arr \<and>
      i < length start \<and> region_within (np_shape bm) (start ! i) (end_arr ! i) \<and>
      \<not> has_zero (radiuses ! i)"
    and "int64v (np_shape bm)"
  shows "for_each (ellipse_item start end_arr centers radiuses) js bm =
    (None, bm\<lparr>buf := (\<lambda>q. if \<exists>i \<in> set js.
                               in_box (scan_begin (centers ! i) (radiuses ! i))
                                 (scan_end (start ! i) (end_arr ! i) (centers ! i) (radiuses ! i))
                                 (vsub (vsub q (off bm)) (start ! i)) \<and>
                               quadratic_form (vsub (vsub q (off bm)) (start ! i))
                                 (centers ! i) (radiuses ! i) < 1
                          then 1 else buf bm q)\<rparr>)"
  using assms
proof (induction js arbitrary: bm)
  case Nil
  then show ?case by simp
next
  case (Cons j js)
  let ?H = "\<lambda>i q. in_box (scan_begin (centers ! i) (radiuses ! i))
                 (scan_end (start ! i) (end_arr ! i) (centers ! i) (radiuses ! i))
                 (vsub (vsub q (off bm)) (start ! i)) \<and>
               quadratic_form (vsub (vsub q (off bm)) (start ! i))
                 (centers ! i) (radiuses ! i) < 1"
  let ?bm1 = "bm\<lparr>buf := (\<lambda>q. if ?H j q then 1 else buf bm q)\<rparr>"
  have j: "j < length centers" "j < length radiuses" "j < length end_arr" "j < length start"
    "region_within (np_shape bm) (start ! j) (end_arr ! j)" "\<not> has_zero (radiuses ! j)"
    using Cons.prems(1) by simp_all
  have st: "ellipse_item start end_arr centers radiuses j bm = (None, ?bm1)"
    using ellipse_item_result[OF j(1-5) Cons.prems(2) j(6)] .
  have sh: "np_shape ?bm1 = np_shape bm" "off ?bm1 = off bm"
    by (simp_all add: np_shape_def)
  have p1: "\<forall>i \<in> set js. i < length centers \<and> i < length radiuses \<and> i < length end_arr \<and>
      i < length start \<and> region_within (np_shape ?bm1) (start ! i) (end_arr ! i) \<and>
      \<not> has_zero (radiuses ! i)"
    using Cons.prems(1) unfolding sh by simp
  have p2: "int64v (np_shape ?bm1)"
    using Cons.prems(2) unfolding sh .
  have ih: "for_each (ellipse_item start end_arr centers radiuses) js ?bm1 =
    (None, ?bm1\<lparr>buf := (\<lambda>q. if \<exists>i \<in> set js. ?H i q then 1 else buf ?bm1 q)\<rparr>)"
    using Cons.IH[OF p1 p2] unfolding sh .
  have eq: "?bm1\<lparr>buf := (\<lambda>q. if \<exists>i \<in> set js. ?H i q then 1 else buf ?bm1 q)\<rparr>
      = bm\<lparr>buf := (\<lambda>q. if \<exists>i \<in> set (j # js). ?H i q then 1 else buf bm q)\<rparr>"
    by (rule ndarray.equality) (auto intro!: ext)
  have "for_each (ellipse_item start end_arr centers radiuses) (j # js) bm =
      (case (None, ?bm1) of (Some e, s') \<Rightarrow> (Some e, s')
       | (None, s') \<Rightarrow> for_each (ellipse_item start end_arr centers radiuses) js s')"
    unfolding for_each.simps st ..
  also have "\<dots> = for_each (ellipse_item start end_arr centers radiuses) js ?bm1"
    by (simp only: prod.case option.case)
  finally show ?case
    unfolding ih eq .
qed

lemma ellipse_mask_result:
  assumes "length radiuses = length centers" and "length start = length centers"
    and "length end_arr = length centers"
    and "\<forall>i<length centers. region_within (np_shape bm) (start ! i) (end_arr ! i)"
    and "int64v (np_shape bm)"
    and "\<forall>i<length centers. \<not> has_zero (radiuses ! i)"
  shows "fst (make_ellipse_mask_numba bm start end_arr centers radiuses) = None"
    and "elem (snd (make_ellipse_mask_numba bm start end_arr centers radiuses)) p =
      (if \<exists>i<length centers.
            in_box (scan_begin (centers ! i) (radiuses ! i))
              (scan_end (start ! i) (end_arr ! i) (centers ! i) (radiuses ! i))
              (vsub p (start ! i)) \<and>
            quadratic_form (vsub p (start ! i)) (centers ! i) (radiuses ! i) < 1
       then 1 else elem bm p)"
proof -
  have pre: "\<forall>i \<in> set [0..<length centers]. i < length centers \<and> i < length radiuses \<and>
      i < length end_arr \<and> i < length start \<and>
      region_within (np_shape bm) (start ! i) (end_arr ! i) \<and> \<not> has_zero (radiuses ! i)"
    using assms(1-4,6) by simp
  note run = ellipse_items_result[OF pre assms(5)]
  show "fst (make_ellipse_mask_numba bm start end_arr centers radiuses) = None"
    unfolding make_ellipse_mask_numba_def run by simp
  have pq: "vsub (vadd (off bm) p) (off bm) = p"
    by (cases p; cases "off bm") simp
  show "elem (snd (make_ellipse_mask_numba bm start end_arr centers radiuses)) p =
      (if \<exists>i<length centers.
            in_box (scan_begin (centers ! i) (radiuses ! i))
              (scan_end (start ! i) (end_arr ! i) (centers ! i) (radiuses ! i))
              (vsub p (start ! i)) \<and>
            quadratic_form (vsub p (start ! i)) (centers ! i) (radiuses ! i) < 1
       then 1 else elem bm p)"
    unfolding make_ellipse_mask_numba_def run
    by (auto simp: elem_def pq simp del: quadratic_form.simps)
qed

lemma wrap64_zero [simp]: "wrap64 0 = 0"
  by (simp add: wrap64_def)

lemma wrap64_abs: "\<bar>r\<bar> < 2 ^ 63 \<Longrightarrow> wrap64 r = r \<and> wrap64 (- r) = - r"
  by (simp add: wrap64_id)

lemma quadratic_form_axis:
  assumes "r0 \<noteq> 0" "r1 \<noteq> 0" "r2 \<noteq> 0"
    and "\<bar>r0\<bar> < 2 ^ 63" "\<bar>r1\<bar> < 2 ^ 63" "\<bar>r2\<bar> < 2 ^ 63"
  shows "quadratic_form (c0 + r0, c1, c2) (c0, c1, c2) (r0, r1, r2) = 1"
    and "quadratic_form (c0 - r0, c1, c2) (c0, c1, c2) (r0, r1, r2) = 1"
    and "quadratic_form (c0, c1 + r1, c2) (c0, c1, c2) (r0, r1, r2) = 1"
    and "quadratic_form (c0, c1 - r1, c2) (c0, c1, c2) (r0, r1, r2) = 1"
    and "quadratic_form (c0, c1, c2 + r2) (c0, c1, c2) (r0, r1, r2) = 1"
    and "quadratic_form (c0, c1, c2 - r2) (c0, c1, c2) (r0, r1, r2) = 1"
    and "quadratic_form (c0, c1, c2) (c0, c1, c2) (r0, r1, r2) = 0"
  using assms(1-3) wrap64_abs[OF assms(4)] wrap64_abs[OF assms(5)] wrap64_abs[OF assms(6)]
  by (simp_all add: true_divide_self true_divide_neg_self true_divide_zero fsquare_simps
      fadd_simps)


text \<open>
  Claim C5, as amended. The ellipsoid filler is called with one row per item in every
  array, every window inside the mask and no zero radius component. Then it raises nothing
  and makes no unchecked access outside an array, and afterwards a voxel is 1 exactly when,
  for some item, its window-relative coordinates lie in the scan range of the item and the
  quadratic form, computed in binary64 arithmetic on the 64-bit differences, is strictly
  less than 1; every other voxel keeps its value. A voxel at offset exactly plus or minus
  the radius along a single axis has the computed form 1, which does not pass the test;
  the centre has the computed form 0.
\<close>

theorem ellipse_membership:
  assumes "length radiuses = length centers" and "length start = length centers"
    and "length end_arr = length centers"
    and "\<forall>i<length centers. region_within (np_shape bm) (start ! i) (end_arr ! i)"
    and "int64v (np_shape bm)"
    and "\<forall>i<length centers. \<not> has_zero (radiuses ! i)"
    and "r0 \<noteq> 0" and "r1 \<noteq> 0" and "r2 \<noteq> 0"
    and "\<bar>r0\<bar> < 2 ^ 63" and "\<bar>r1\<bar> < 2 ^ 63" and "\<bar>r2\<bar> < 2 ^ 63"
  shows "fst (make_ellipse_mask_numba bm start end_arr centers radiuses) = None \<and>
    (\<forall>p. elem (snd (make_ellipse_mask_numba bm start end_arr centers radiuses)) p =
       (if \<exists>i<length centers.
             in_box (scan_begin (centers ! i) (radiuses ! i))
               (scan_end (start ! i) (end_arr ! i) (centers ! i) (radiuses ! i))
               (vsub p (start ! i)) \<and>
             quadratic_form (vsub p (start ! i)) (centers ! i) (radiuses ! i) < 1
        then 1 else elem bm p)) \<and>
    quadratic_form (c0 + r0, c1, c2) (c0, c1, c2) (r0, r1, r2) = 1 \<and>
    quadratic_form (c0 - r0, c1, c2) (c0, c1, c2) (r0, r1, r2) = 1 \<and>
    quadratic_form (c0, c1 + r1, c2) (c0, c1, c2) (r0, r1, r2) = 1 \<and>
    quadratic_form (c0, c1 - r1, c2) (c0, c1, c2) (r0, r1, r2) = 1 \<and>
    quadratic_form (c0, c1, c2 + r2) (c0, c1, c2) (r0, r1, r2) = 1 \<and>
    quadratic_form (c0, c1, c2 - r2) (c0, c1, c2) (r0, r1, r2) = 1 \<and>
    quadratic_form (c0, c1, c2) (c0, c1, c2) (r0, r1, r2) = 0"
proof -
  note items = ellipse_mask_result[OF assms(1-6)]
  note ax = quadratic_form_axis[OF assms(7-12)]
  show ?thesis
    by (intro conjI allI items ax)
qed

text \<open>
  Two items in a \<open>5 x 5 x 5\<close> mask, of radius one around \<open>(2, 2, 2)\<close> (the fourth scenario
  of the specification) and around \<open>(1, 1, 1)\<close>: each sets its centre, and the neighbour
  \<open>(3, 2, 2)\<close> of the first centre stays 0.
\<close>

theorem ellipse_membership_witness:
  "length [(1, 1, 1), (1, 1, 1) :: vec3] = length [(2, 2, 2), (1, 1, 1) :: vec3] \<and>
   region_within (np_shape (full (5, 5, 5) (0::int))) ([(0, 0, 0), (0, 0, 0)] ! 0)
     ([(5, 5, 5), (5, 5, 5)] ! 0) \<and>
   region_within (np_shape (full (5, 5, 5) (0::int))) ([(0, 0, 0), (0, 0, 0)] ! 1)
     ([(5, 5, 5), (5, 5, 5)] ! 1) \<and>
   int64v (np_shape (full (5, 5, 5) (0::int))) \<and>
   \<not> has_zero ([(1, 1, 1), (1, 1, 1)] ! 0) \<and> \<not> has_zero ([(1, 1, 1), (1, 1, 1)] ! 1) \<and>
   (1::int) \<noteq> 0 \<and> \<bar>1::int\<bar> < 2 ^ 63 \<and>
   fst (make_ellipse_mask_numba (full (5, 5, 5) (0::int)) [(0, 0, 0), (0, 0, 0)]
     [(5, 5, 5), (5, 5, 5)] [(2, 2, 2), (1, 1, 1)] [(1, 1, 1), (1, 1, 1)]) = None \<and>
   elem (snd (make_ellipse_mask_numba (full (5, 5, 5) (0::int)) [(0, 0, 0), (0, 0, 0)]
     [(5, 5, 5), (5, 5, 5)] [(2, 2, 2), (1, 1, 1)] [(1, 1, 1), (1, 1, 1)])) (2, 2, 2) = 1 \<and>
   elem (snd (make_ellipse_mask_numba (full (5, 5, 5) (0::int)) [(0, 0, 0), (0, 0, 0)]
     [(5, 5, 5), (5, 5, 5)] [(2, 2, 2), (1, 1, 1)] [(1, 1, 1), (1, 1, 1)])) (1, 1, 1) = 1 \<and>
   elem (snd (make_ellipse_mask_numba (full (5, 5, 5) (0::int)) [(0, 0, 0), (0, 0, 0)]
     [(5, 5, 5), (5, 5, 5)] [(2, 2, 2), (1, 1, 1)] [(1, 1, 1), (1, 1, 1)])) (3, 2, 2) = 0"
proof -
  let ?bm = "full (5, 5, 5) (0::int)"
  let ?run = "make_ellipse_mask_numba ?bm [(0, 0, 0), (0, 0, 0)]
     [(5, 5, 5), (5, 5, 5)] [(2, 2, 2), (1, 1, 1)] [(1, 1, 1), (1, 1, 1)]"
  have l: "length [x, y] = length [u, v]" for x y u v :: vec3
    by simp
  have w0: "region_within (np_shape ?bm) ([(0, 0, 0), (0, 0, 0)] ! 0) ([(5, 5, 5), (5, 5, 5)] ! 0)"
    and w1: "region_within (np_shape ?bm) ([(0, 0, 0), (0, 0, 0)] ! 1) ([(5, 5, 5), (5, 5, 5)] ! 1)"
    and z0: "\<not> has_zero ([(1, 1, 1), (1, 1, 1)] ! 0)"
    and z1: "\<not> has_zero ([(1, 1, 1), (1, 1, 1)] ! 1)"
    by (simp_all add: np_shape_full)
  have w: "\<forall>i<length [(2, 2, 2), (1, 1, 1) :: vec3].
      region_within (np_shape ?bm) ([(0, 0, 0), (0, 0, 0)] ! i) ([(5, 5, 5), (5, 5, 5)] ! i)"
    using w0 w1 by (simp add: All_less_Suc)
  have n: "int64v (np_shape ?bm)"
    by (simp add: np_shape_full int64_def)
  have z: "\<forall>i<length [(2, 2, 2), (1, 1, 1) :: vec3]. \<not> has_zero ([(1, 1, 1), (1, 1, 1)] ! i)"
    using z0 z1 by (simp add: All_less_Suc)
  have o: "(1::int) \<noteq> 0" and a: "\<bar>1::int\<bar> < 2 ^ 63"
    by simp_all
  note t = ellipse_membership[where start = "[(0, 0, 0), (0, 0, 0)]"
      and end_arr = "[(5, 5, 5), (5, 5, 5)]" and centers = "[(2, 2, 2), (1, 1, 1)]"
      and radiuses = "[(1, 1, 1), (1, 1, 1)]" and bm = ?bm, OF l l l w n z o o o a a a]
  note el = t[THEN conjunct2, THEN conjunct1, rule_format]
  have f0: "quadratic_form (2, 2, 2) (2, 2, 2) (1, 1, 1) = 0"
    using t[of 2 2 2] by blast
  have f1: "quadratic_form (3, 2, 2) (2, 2, 2) (1, 1, 1) = 1"
    using t[of 2 2 2, THEN conjunct2, THEN conjunct2, THEN conjunct1] by simp
  have f2: "quadratic_form (1, 1, 1) (1, 1, 1) (1, 1, 1) = 0"
    using t[of 1 1 1] by blast
  have e0: "elem (snd ?run) (2, 2, 2) = 1"
    unfolding el[where p = "(2, 2, 2)"]
    by (simp add: f0 scan_begin_def scan_end_def wrap64_def Ex_less_Suc
        del: quadratic_form.simps)
  have e1: "elem (snd ?run) (1, 1, 1) = 1"
    unfolding el[where p = "(1, 1, 1)"]
    by (simp add: f2 scan_begin_def scan_end_def wrap64_def Ex_less_Suc
        del: quadratic_form.simps)
  have e2: "elem (snd ?run) (3, 2, 2) = 0"
    unfolding el[where p = "(3, 2, 2)"]
    by (simp add: f1 elem_full scan_begin_def scan_end_def wrap64_def Ex_less_Suc
        del: quadratic_form.simps)
  show ?thesis
    by (intro conjI l w0 w1 n z0 z1 o a t[THEN conjunct1] e0 e1 e2)
qed

text \<open>
  Claim C5 as stated fails: with radius \<open>(7, 7, 7)\<close> the voxel at offset \<open>(2, 3, 6)\<close> from the
  centre has the exact quadratic form \<open>(4 + 9 + 36) / 49 = 1\<close>, but the computed form is
  \<open>1 - 2^-53\<close> and the voxel is set.
\<close>

theorem ellipse_boundary_counterexample:
  "exact_form (9, 10, 13) (7, 7, 7) (7, 7, 7) = 1 \<and>
   quadratic_form (9, 10, 13) (7, 7, 7) (7, 7, 7) = 9007199254740991 / 9007199254740992 \<and>
   elem (full (16, 16, 16) (0::int)) (9, 10, 13) = 0 \<and>
   elem (snd (make_ellipse_mask_numba (full (16, 16, 16) (0::int)) [(0, 0, 0)] [(16, 16, 16)]
     [(7, 7, 7)] [(7, 7, 7)])) (9, 10, 13) = 1"
proof -
  let ?bm = "full (16, 16, 16) (0::int)"
  have x: "exact_form (9, 10, 13) (7, 7, 7) (7, 7, 7) = 1"
    by (simp add: power2_eq_square)
  have l: "length [x] = length [u]" for x u :: vec3
    by simp
  have h: "\<forall>i<length [(7, 7, 7) :: vec3].
      region_within (np_shape ?bm) ([(0, 0, 0)] ! i) ([(16, 16, 16)] ! i)"
    by (simp add: np_shape_full)
  have n: "int64v (np_shape ?bm)"
    by (simp add: np_shape_full int64_def)
  have nz: "\<forall>i<length [(7, 7, 7) :: vec3]. \<not> has_zero ([(7, 7, 7)] ! i)"
    by simp
  have s: "elem (snd (make_ellipse_mask_numba ?bm [(0, 0, 0)] [(16, 16, 16)]
     [(7, 7, 7)] [(7, 7, 7)])) (9, 10, 13) = 1"
    unfolding ellipse_mask_result(2)[OF l l l h n nz]
    by (simp add: ce_form scan_begin_def scan_end_def wrap64_def del: quadratic_form.simps)
  show ?thesis
    by (intro conjI x ce_form s) (simp add: elem_full)
qed


section \<open>A window that extends beyond the mask\<close>

text \<open>
  The scan range is clipped to the window, not to the mask. When the window extends beyond
  an axis of the mask, a write index inside the window can lie beyond that axis; the
  unchecked write then lands in a neighbouring row of the mask.
\<close>

lemma ellipse_voxel_miss:
  "\<not> has_zero r \<Longrightarrow> \<not> quadratic_form v c r < 1 \<Longrightarrow> ellipse_voxel s c r v bm = (None, bm)"
  by (simp add: ellipse_voxel_def ellipse_test_def)

lemma ellipse_voxel_hit:
  "\<not> has_zero r \<Longrightarrow> quadratic_form v c r < 1 \<Longrightarrow>
     ellipse_voxel s c r v bm =
       (case set_item bm (wadd v s) 1 of Inl e \<Rightarrow> (Some e, bm) | Inr b \<Rightarrow> (None, b))"
  by (simp add: ellipse_voxel_def ellipse_test_def)

lemma unit_divide: "true_divide 0 1 = 0" "true_divide 1 1 = 1" "true_divide (- 1) 1 = - 1"
  using true_divide_zero[of 1] true_divide_self[of 1] true_divide_neg_self[of 1] by simp_all

lemma fadd_one_one: "fadd 1 1 = 2"
  by (simp add: fadd_def rnd64_2)

lemma wrap64_units: "wrap64 1 = 1" "wrap64 (- 1) = - 1"
  by (simp_all add: wrap64_def)

lemma forms_at_0_0_2:
  "quadratic_form (0, 0, 1) (0, 0, 2) (1, 1, 1) = 1"
  "quadratic_form (0, 0, 2) (0, 0, 2) (1, 1, 1) = 0"
  "quadratic_form (0, 0, 3) (0, 0, 2) (1, 1, 1) = 1"
  "quadratic_form (1, 0, 1) (0, 0, 2) (1, 1, 1) = 2"
  "quadratic_form (1, 0, 2) (0, 0, 2) (1, 1, 1) = 1"
  "quadratic_form (1, 0, 3) (0, 0, 2) (1, 1, 1) = 2"
  by (simp_all add: wrap64_units unit_divide fsquare_simps fadd_simps fadd_one_one)


text \<open>
  Claim C4 as stated fails. A \<open>2 x 2 x 2\<close> mask, the window \<open>[(0, 0, 0), (2, 1, 4))\<close>, centre
  \<open>(0, 0, 2)\<close> and radius one: the centre is scanned, its write index \<open>(0, 0, 2)\<close> is inside
  the window and beyond the last axis of the mask, and the write lands on the element
  \<open>[0, 1, 0]\<close>, which is not in the window.
\<close>

theorem ellipse_write_counterexample:
  "fst (ellipse_item [(0, 0, 0)] [(2, 1, 4)] [(0, 0, 2)] [(1, 1, 1)] 0
     (full (2, 2, 2) (0::int))) = None \<and>
   elem (full (2, 2, 2) (0::int)) (0, 1, 0) = 0 \<and>
   elem (snd (ellipse_item [(0, 0, 0)] [(2, 1, 4)] [(0, 0, 2)] [(1, 1, 1)] 0
     (full (2, 2, 2) (0::int)))) (0, 1, 0) = 1 \<and>
   in_bounds (full (2, 2, 2) (0::int)) (0, 1, 0) \<and>
   \<not> in_box (0, 0, 0) (2, 1, 4) (0, 1, 0)"
proof -
  let ?bm = "full (2, 2, 2) (0::int)"
  let ?bm1 = "?bm\<lparr>buf := (buf ?bm)((0, 1, 0) := 1)\<rparr>"
  have nz: "\<not> has_zero (1, 1, 1)"
    by simp
  have rng: "scan_begin (0, 0, 2) (1, 1, 1) = (0, 0, 1)"
    "scan_end (0, 0, 0) (2, 1, 4) (0, 0, 2) (1, 1, 1) = (2, 1, 4)"
    by (simp_all add: scan_begin_def scan_end_def wrap64_def)
  have pts: "box_points (0, 0, 1) (2, 1, 4)
      = [(0, 0, 1), (0, 0, 2), (0, 0, 3), (1, 0, 1), (1, 0, 2), (1, 0, 3)]"
    by (simp add: upto_rec1)
  have wr: "set_item ?bm (0, 0, 2) 1 = Inr ?bm1"
    by (simp add: set_item_def Let_def np_shape_def wrap_index_def wrap64_def full_def)
  have "ellipse_item [(0, 0, 0)] [(2, 1, 4)] [(0, 0, 2)] [(1, 1, 1)] 0 ?bm
      = for_each (ellipse_voxel (0, 0, 0) (0, 0, 2) (1, 1, 1))
          (box_points (scan_begin (0, 0, 2) (1, 1, 1))
             (scan_end (0, 0, 0) (2, 1, 4) (0, 0, 2) (1, 1, 1))) ?bm"
    using ellipse_item_loop[of 0 "[(0, 0, 2)]" "[(1, 1, 1)]" "[(2, 1, 4)]" "[(0, 0, 0)]" ?bm]
    by simp
  also have "\<dots> = (None, ?bm1)"
    unfolding rng pts
    by (simp add: forms_at_0_0_2 ellipse_voxel_miss[OF nz] ellipse_voxel_hit[OF nz] wr
        wrap64_def del: quadratic_form.simps)
  finally have run:
    "ellipse_item [(0, 0, 0)] [(2, 1, 4)] [(0, 0, 2)] [(1, 1, 1)] 0 ?bm = (None, ?bm1)" .
  show ?thesis
    unfolding run by (simp add: elem_def in_bounds_def np_shape_def full_def)
qed



section \<open>The regression batch path\<close>

subsection \<open>Coordinates\<close>

lemma astype_int_of_int [simp]: "astype_int (of_int k) = k"
  by (simp add: astype_int_def)

lemma np_clip_mono: "x \<le> y \<Longrightarrow> np_clip x lo hi \<le> np_clip y lo hi"
  by (simp add: np_clip_def min_def max_def)

lemma np_clip_bounds: "0 \<le> np_clip x 0 1" "np_clip x 0 1 \<le> 1"
  by (simp_all add: np_clip_def min_def max_def)

lemma float_of_int_nonneg: "0 \<le> n \<Longrightarrow> 0 \<le> float_of_int n"
  by (simp add: float_of_int_def rnd64_nonneg)

lemma coord_simps:
  "start_coord c s n = rint (fmul (np_clip (fsub c (fdiv s 2)) 0 1) (float_of_int n))"
  "end_coord c s n = rint (fmul (np_clip (fadd c (fdiv s 2)) 0 1) (float_of_int n))"
  by (simp_all add: start_coord_def end_coord_def)

lemma coord_le:
  assumes "0 \<le> s" "0 \<le> n"
  shows "start_coord c s n \<le> end_coord c s n"
proof -
  have h: "0 \<le> fdiv s 2"
    using assms(1) by (simp add: fdiv_def rnd64_nonneg)
  have "fsub c (fdiv s 2) \<le> fadd c (fdiv s 2)"
    unfolding fsub_def fadd_def using h by (intro rnd64_mono) simp
  then have "np_clip (fsub c (fdiv s 2)) 0 1 \<le> np_clip (fadd c (fdiv s 2)) 0 1"
    by (rule np_clip_mono)
  then have "np_clip (fsub c (fdiv s 2)) 0 1 * float_of_int n
      \<le> np_clip (fadd c (fdiv s 2)) 0 1 * float_of_int n"
    using float_of_int_nonneg[OF assms(2)] by (rule mult_right_mono)
  then have "fmul (np_clip (fsub c (fdiv s 2)) 0 1) (float_of_int n)
      \<le> fmul (np_clip (fadd c (fdiv s 2)) 0 1) (float_of_int n)"
    unfolding fmul_def by (rule rnd64_mono)
  then show ?thesis
    unfolding coord_simps by (rule rint_mono)
qed

lemma coord_nonneg:
  assumes "0 \<le> n"
  shows "0 \<le> start_coord c s n" "0 \<le> end_coord c s n"
proof -
  have "0 \<le> fmul (np_clip x 0 1) (float_of_int n)" for x
    unfolding fmul_def
    using np_clip_bounds(1)[of x] float_of_int_nonneg[OF assms]
    by (intro rnd64_nonneg) simp
  then show "0 \<le> start_coord c s n" "0 \<le> end_coord c s n"
    unfolding coord_simps by (simp_all add: rint_nonneg)
qed

lemma pixel_le:
  assumes "fnonneg3 sz" "nonneg3 crop"
  shows "vle (start_pixel crop (c, sz)) (end_pixel crop (c, sz))"
  using assms by (cases sz; cases crop; cases c) (simp add: coord_le)

lemma pixel_nonneg:
  assumes "nonneg3 crop"
  shows "nonneg3 (start_pixel crop (c, sz))" "nonneg3 (end_pixel crop (c, sz))"
  using assms by (cases sz; cases crop; cases c; simp add: coord_nonneg)+


subsection \<open>The jit loop and boolean-mask indexing\<close>

lemma jit_loop:
  assumes "length st = length ms" and "length en = length ms"
  shows "k \<le> length ms \<Longrightarrow>
    for_each (jit_item st en) [0..<k] ms =
      (None, map (\<lambda>i. if i < k then fill_slice (ms ! i) (st ! i) (en ! i) 1 else ms ! i)
               [0..<length ms])"
proof (induction k)
  case 0
  show ?case by (simp add: map_nth)
next
  case (Suc k)
  let ?L = "map (\<lambda>i. if i < k then fill_slice (ms ! i) (st ! i) (en ! i) 1 else ms ! i)
      [0..<length ms]"
  have ih: "for_each (jit_item st en) [0..<k] ms = (None, ?L)"
    using Suc by simp
  have k: "k < length ms" using Suc.prems by simp
  have step: "jit_item st en k ?L =
      (None, ?L[k := fill_slice (ms ! k) (st ! k) (en ! k) 1])"
    using k assms by (simp add: jit_item_def)
  have upd: "?L[k := fill_slice (ms ! k) (st ! k) (en ! k) 1] =
      map (\<lambda>i. if i < Suc k then fill_slice (ms ! i) (st ! i) (en ! i) 1 else ms ! i)
        [0..<length ms]"
    by (rule nth_equalityI) (auto simp: nth_list_update less_Suc_eq)
  show ?case
    by (simp add: for_each_append ih step upd del: upt_Suc add: upt_Suc_append)
qed

lemma create_mask_reg_jit_eq:
  assumes "length st = length ms" and "length en = length ms"
  shows "create_mask_reg_jit ms st en =
    (None, map (\<lambda>(m, s, e). fill_slice m s e 1) (zip ms (zip st en)))"
proof -
  have "create_mask_reg_jit ms st en =
      (None, map (\<lambda>i. fill_slice (ms ! i) (st ! i) (en ! i) 1) [0..<length ms])"
    unfolding create_mask_reg_jit_def assms(1) using jit_loop[OF assms, of "length ms"]
    by simp
  moreover have "map (\<lambda>i. fill_slice (ms ! i) (st ! i) (en ! i) 1) [0..<length ms]
      = map (\<lambda>(m, s, e). fill_slice m s e 1) (zip ms (zip st en))"
    using assms by (intro nth_equalityI) simp_all
  ultimately show ?thesis by simp
qed

lemma length_selected:
  "length xs = length ps \<Longrightarrow> length (selected xs ps) = length (filter id ps)"
proof (induction ps arbitrary: xs)
  case Nil
  then show ?case by (simp add: selected_def)
next
  case (Cons p ps)
  then obtain x xs' where xs: "xs = x # xs'" by (cases xs) auto
  with Cons show ?case by (simp add: selected_def)
qed

lemma selected_zip:
  "length xs = length ps \<Longrightarrow> length ys = length ps \<Longrightarrow>
     zip (selected xs ps) (selected ys ps) = selected (zip xs ys) ps"
proof (induction ps arbitrary: xs ys)
  case Nil
  then show ?case by (simp add: selected_def)
next
  case (Cons p ps)
  then obtain x xs' y ys' where xs: "xs = x # xs'" "ys = y # ys'"
    by (cases xs; cases ys) auto
  with Cons show ?case by (simp add: selected_def)
qed

lemma bool_store_selected:
  "length xs = length ps \<Longrightarrow> length ys = length ps \<Longrightarrow>
     bool_store xs ps (map h (selected ys ps)) =
       map (\<lambda>(x, y, p). if p then h y else x) (zip xs (zip ys ps))"
proof (induction ps arbitrary: xs ys)
  case Nil
  then show ?case by simp
next
  case (Cons p ps)
  then obtain x xs' y ys' where xs: "xs = x # xs'" "ys = y # ys'"
    by (cases xs; cases ys) auto
  with Cons show ?case by (simp add: selected_def)
qed

lemma np_zeros_nonneg:
  "nonneg3 crop \<Longrightarrow> np_zeros n crop = Inr (replicate n (full (nshape crop) 0))"
  by (cases crop) simp

lemma create_mask_reg_result:
  fixes t :: rat
  assumes "length sizes = length centers" and "length probs = length centers"
    and "probs \<noteq> []" and "nonneg3 crop"
  shows "create_mask_reg centers sizes probs crop t =
    Inr (map (\<lambda>(c, s, p). if t < p
                then fill_slice (full (nshape crop) 0) (start_pixel crop (c, s))
                       (end_pixel crop (c, s)) 1
                else full (nshape crop) 0)
           (zip centers (zip sizes probs)))"
proof -
  let ?n = "length centers"
  let ?z = "full (nshape crop) 0 :: 'a ndarray"
  let ?M = "replicate ?n ?z"
  let ?rows = "zip centers sizes"
  let ?S = "map (start_pixel crop) ?rows" and ?E = "map (end_pixel crop) ?rows"
  let ?ps = "positions_of probs t"
  let ?h = "\<lambda>(m, s, e). fill_slice m s e (1::'a)"
  have lps: "length ?ps = ?n" using assms(2) by (simp add: positions_of_def)
  have lS: "length ?S = ?n" "length ?E = ?n" using assms(1) by simp_all
  have lM: "length ?M = ?n" by simp
  have bs: "bool_select ?M ?ps = Inr (selected ?M ?ps)"
      "bool_select ?S ?ps = Inr (selected ?S ?ps)"
      "bool_select ?E ?ps = Inr (selected ?E ?ps)"
    using lps lS by (simp_all add: bool_select_def)
  have lsel: "length (selected ?S ?ps) = length (selected ?M ?ps)"
      "length (selected ?E ?ps) = length (selected ?M ?ps)"
    using lps lS lM by (simp_all add: length_selected)
  have zz: "zip (selected ?M ?ps) (zip (selected ?S ?ps) (selected ?E ?ps))
      = selected (zip ?M (zip ?S ?E)) ?ps"
    using lps lS lM by (simp add: selected_zip)
  have jit: "create_mask_reg_jit (selected ?M ?ps) (selected ?S ?ps) (selected ?E ?ps)
      = (None, map ?h (selected (zip ?M (zip ?S ?E)) ?ps))"
    unfolding create_mask_reg_jit_eq[OF lsel] zz ..
  have lf: "length (map ?h (selected (zip ?M (zip ?S ?E)) ?ps)) = length (filter id ?ps)"
    using lps lS lM by (simp add: length_selected)
  have store: "bool_store ?M ?ps (map ?h (selected (zip ?M (zip ?S ?E)) ?ps)) =
      map (\<lambda>(x, y, p). if p then ?h y else x) (zip ?M (zip (zip ?M (zip ?S ?E)) ?ps))"
    using lps lS lM by (intro bool_store_selected) simp_all
  have asg: "bool_assign ?M ?ps (map ?h (selected (zip ?M (zip ?S ?E)) ?ps)) =
      Inr (map (\<lambda>(x, y, p). if p then ?h y else x) (zip ?M (zip (zip ?M (zip ?S ?E)) ?ps)))"
    unfolding bool_assign_def store[symmetric] using lps lf by simp
  have fin: "map (\<lambda>(x, y, p). if p then ?h y else x) (zip ?M (zip (zip ?M (zip ?S ?E)) ?ps))
      = map (\<lambda>(c, s, p). if t < p
                then fill_slice ?z (start_pixel crop (c, s)) (end_pixel crop (c, s)) 1
                else ?z)
           (zip centers (zip sizes probs))"
    using assms(1,2) by (intro nth_equalityI) (simp_all add: positions_of_def)
  have br: "broadcast_rows centers sizes = Inr ?rows"
    using assms(1) by (simp add: broadcast_rows_def)
  show ?thesis
    unfolding create_mask_reg_def np_zeros_nonneg[OF assms(4)] br
    using assms(3) by (simp add: Let_def bs jit asg fin)
qed


subsection \<open>Filled slices\<close>

lemma in_bounds_iff: "in_bounds a p \<longleftrightarrow> p \<in> set (box_points (0, 0, 0) (np_shape a))"
  by (simp add: in_bounds_def set_box_points)

lemma all_zero_iff: "all_zero a \<longleftrightarrow> (\<forall>p. in_bounds a p \<longrightarrow> elem a p = 0)"
  by (auto simp: all_zero_def voxels_def list_all_iff in_bounds_iff)

lemma has_one_iff: "has_one a \<longleftrightarrow> (\<exists>p. in_bounds a p \<and> elem a p = 1)"
proof -
  have "has_one a \<longleftrightarrow> (\<exists>p \<in> set (box_points (0, 0, 0) (np_shape a)). elem a p = 1)"
    unfolding has_one_def voxels_def list_ex_iff by (simp only: set_map bex_simps)
  also have "\<dots> \<longleftrightarrow> (\<exists>p. in_bounds a p \<and> elem a p = 1)"
    by (simp only: in_bounds_iff Bex_def)
  finally show ?thesis .
qed

lemma all_zero_full: "all_zero (full sh 0)"
  by (simp add: all_zero_iff elem_full)

lemma slice_lo_le_hi: "slice_lo n s \<le> slice_hi n s e"
  by (simp add: slice_hi_def)

lemma in_box_slice_shift:
  "in_box (0, 0, 0) (ishape (nshape (vsub (slice_his n st en) (slice_los n st))))
      (vsub p (slice_los n st))
    = in_box (slice_los n st) (slice_his n st en) p"
proof -
  obtain n0 n1 n2 s0 s1 s2 e0 e1 e2 p0 p1 p2 where
    eq: "n = (n0, n1, n2)" "st = (s0, s1, s2)" "en = (e0, e1, e2)" "p = (p0, p1, p2)"
    by (metis prod_cases3)
  have l: "slice_lo n0 s0 \<le> slice_hi n0 s0 e0" "slice_lo n1 s1 \<le> slice_hi n1 s1 e1"
      "slice_lo n2 s2 \<le> slice_hi n2 s2 e2"
    by (rule slice_lo_le_hi)+
  show ?thesis
    unfolding eq using l by (simp add: algebra_simps)
qed

lemma elem_fill_slice:
  "elem (fill_slice a st en c) p =
     (if in_box (slice_los (np_shape a) st) (slice_his (np_shape a) st en) p then c
      else elem a p)"
proof -
  have v: "vsub (vadd (off a) p) (vadd (off a) (slice_los (np_shape a) st))
      = vsub p (slice_los (np_shape a) st)"
    by (cases p; cases "off a"; cases "slice_los (np_shape a) st") simp
  have "in_bounds (get_slice a st en) (vsub (vadd (off a) p) (off (get_slice a st en)))
      = in_box (slice_los (np_shape a) st) (slice_his (np_shape a) st en) p"
    unfolding in_bounds_def np_shape_def[of "get_slice a st en"] get_slice_off get_slice_shape v
    by (rule in_box_slice_shift)
  then show ?thesis
    by (simp add: elem_def fill_slice_def fill_view_def get_slice_buf)
qed

lemma np_shape_fill_slice: "np_shape (fill_slice a st en c) = np_shape a"
  by (simp add: np_shape_def fill_slice_def)

lemma in_bounds_fill_slice: "in_bounds (fill_slice a st en c) p = in_bounds a p"
  by (simp add: in_bounds_def np_shape_fill_slice)

lemma slice_hi_same: "slice_hi n s s = slice_lo n s"
  by (simp add: slice_hi_def slice_lo_def)

lemma empty_slice:
  assumes "any_eq st en"
  shows "\<not> in_box (slice_los n st) (slice_his n st en) p"
proof -
  obtain n0 n1 n2 s0 s1 s2 e0 e1 e2 p0 p1 p2 where
    eq: "n = (n0, n1, n2)" "st = (s0, s1, s2)" "en = (e0, e1, e2)" "p = (p0, p1, p2)"
    by (metis prod_cases3)
  show ?thesis
    using assms unfolding eq by (auto simp: slice_hi_same)
qed

lemma all_zero_collapsed:
  "any_eq st en \<Longrightarrow> all_zero (fill_slice (full sh 0) st en c)"
  by (simp add: all_zero_iff elem_fill_slice empty_slice elem_full)

lemma create_mask_reg_nth:
  fixes t :: rat
  assumes "length sizes = length centers" and "length probs = length centers"
    and "probs \<noteq> []" and "nonneg3 crop" and "i < length centers"
  shows "\<exists>ms. create_mask_reg centers sizes probs crop t = Inr ms \<and>
    length ms = length centers \<and>
    ms ! i = (if t < probs ! i
              then fill_slice (full (nshape crop) 0) (start_pixel crop (centers ! i, sizes ! i))
                     (end_pixel crop (centers ! i, sizes ! i)) 1
              else full (nshape crop) 0)"
  unfolding create_mask_reg_result[OF assms(1-4)] using assms(1,2,5) by simp


subsection \<open>Two computed examples\<close>

text \<open>
  Centre one half in a crop of eight voxels: with size \<open>2^-10\<close> both coordinates round to 4,
  with size one quarter they are 3 and 5. Every intermediate value is a double, so no
  rounding changes it.
\<close>

lemma rnd64_ex_1_2048: "rnd64 (1 / 2048) = 1 / 2048"
  using rnd64_eval[of "-11" "1 / 2048" "4503599627370496"] by (simp add: power_int_minus)

lemma rnd64_ex_1023_2048: "rnd64 (1023 / 2048) = 1023 / 2048"
  using rnd64_eval[of "-2" "1023 / 2048" "8998403161718784"] by (simp add: power_int_minus)

lemma rnd64_ex_1025_2048: "rnd64 (1025 / 2048) = 1025 / 2048"
  using rnd64_eval[of "-1" "1025 / 2048" "4507997673881600"] by (simp add: power_int_minus)

lemma rnd64_ex_8_1: "rnd64 (8) = 8"
  using rnd64_eval[of "3" "8" "4503599627370496"] by (simp add: power_int_minus)

lemma rnd64_ex_1023_256: "rnd64 (1023 / 256) = 1023 / 256"
  using rnd64_eval[of "1" "1023 / 256" "8998403161718784"] by (simp add: power_int_minus)

lemma rnd64_ex_1025_256: "rnd64 (1025 / 256) = 1025 / 256"
  using rnd64_eval[of "2" "1025 / 256" "4507997673881600"] by (simp add: power_int_minus)

lemma rint_ex_1023_256: "rint (1023 / 256) = 4"
  by (rule rint_eval) simp_all

lemma rint_ex_1025_256: "rint (1025 / 256) = 4"
  by (rule rint_eval) simp_all

lemma rnd64_ex_1_8: "rnd64 (1 / 8) = 1 / 8"
  using rnd64_eval[of "-3" "1 / 8" "4503599627370496"] by (simp add: power_int_minus)

lemma rnd64_ex_3_8: "rnd64 (3 / 8) = 3 / 8"
  using rnd64_eval[of "-2" "3 / 8" "6755399441055744"] by (simp add: power_int_minus)

lemma rnd64_ex_5_8: "rnd64 (5 / 8) = 5 / 8"
  using rnd64_eval[of "-1" "5 / 8" "5629499534213120"] by (simp add: power_int_minus)

lemma rnd64_ex_3_1: "rnd64 (3) = 3"
  using rnd64_eval[of "1" "3" "6755399441055744"] by (simp add: power_int_minus)

lemma rnd64_ex_5_1: "rnd64 (5) = 5"
  using rnd64_eval[of "2" "5" "5629499534213120"] by (simp add: power_int_minus)

lemma rint_ex_3_1: "rint (3) = 3"
  by (rule rint_eval) simp_all

lemma rint_ex_5_1: "rint (5) = 5"
  by (rule rint_eval) simp_all

lemma collapse_coords:
  "start_coord (1 / 2) (1 / 1024) 8 = 4" "end_coord (1 / 2) (1 / 1024) 8 = 4"
  by (simp_all add: coord_simps fdiv_def fsub_def fadd_def fmul_def float_of_int_def np_clip_def
      rnd64_ex_1_2048 rnd64_ex_1023_2048 rnd64_ex_1025_2048 rnd64_ex_8_1 rnd64_ex_1023_256 rnd64_ex_1025_256 rint_ex_1023_256 rint_ex_1025_256 rnd64_ex_1_8 rnd64_ex_3_8 rnd64_ex_5_8 rnd64_ex_3_1 rnd64_ex_5_1 rint_ex_3_1 rint_ex_5_1)

lemma quarter_coords:
  "start_coord (1 / 2) (1 / 4) 8 = 3" "end_coord (1 / 2) (1 / 4) 8 = 5"
  by (simp_all add: coord_simps fdiv_def fsub_def fadd_def fmul_def float_of_int_def np_clip_def
      rnd64_ex_1_2048 rnd64_ex_1023_2048 rnd64_ex_1025_2048 rnd64_ex_8_1 rnd64_ex_1023_256 rnd64_ex_1025_256 rint_ex_1023_256 rint_ex_1025_256 rnd64_ex_1_8 rnd64_ex_3_8 rnd64_ex_5_8 rnd64_ex_3_1 rnd64_ex_5_1 rint_ex_3_1 rint_ex_5_1)


lemma all_zero_not_has_one:
  fixes a :: "('a::zero_neq_one) ndarray"
  shows "all_zero a \<Longrightarrow> \<not> has_one a"
  by (auto simp: all_zero_iff has_one_iff)

text \<open>
  Claim C7. For parallel inputs (one size and one probability per centre, at least one
  item, a crop shape that \<open>np.zeros\<close> accepts) the regression batch path returns one
  volume per item: the volume of an item whose probability is strictly greater than the
  threshold is the zero volume with its box \<open>start:end\<close> filled with ones, and the volume of
  every item whose probability is at most the threshold is all-zero.
\<close>

theorem regression_threshold:
  fixes t :: rat
  assumes "length sizes = length centers" and "length probs = length centers"
    and "probs \<noteq> []" and "nonneg3 crop"
  shows "\<exists>ms. create_mask_reg centers sizes probs crop t = Inr ms \<and>
    length ms = length centers \<and>
    (\<forall>i<length centers.
       (t < probs ! i \<longrightarrow>
          ms ! i = fill_slice (full (nshape crop) 0) (start_pixel crop (centers ! i, sizes ! i))
                     (end_pixel crop (centers ! i, sizes ! i)) 1) \<and>
       (probs ! i \<le> t \<longrightarrow> ms ! i = full (nshape crop) 0 \<and> all_zero (ms ! i)))"
  unfolding create_mask_reg_result[OF assms]
  using assms(1,2) by (simp add: all_zero_full)

text \<open>
  Two items with centre one half and size one quarter in a crop of eight voxels,
  probabilities \<open>0.9\<close> and \<open>0.1\<close>, threshold one half.
\<close>

theorem regression_threshold_witness:
  "length ([(1 / 4, 1 / 4, 1 / 4), (1 / 4, 1 / 4, 1 / 4)] :: fvec3 list)
     = length ([(1 / 2, 1 / 2, 1 / 2), (1 / 2, 1 / 2, 1 / 2)] :: fvec3 list) \<and>
   [9 / 10, 1 / 10 :: rat] \<noteq> [] \<and> nonneg3 (8, 8, 8) \<and>
   (\<exists>ms :: rat ndarray list.
      create_mask_reg [(1 / 2, 1 / 2, 1 / 2), (1 / 2, 1 / 2, 1 / 2)]
        [(1 / 4, 1 / 4, 1 / 4), (1 / 4, 1 / 4, 1 / 4)] [9 / 10, 1 / 10] (8, 8, 8) (1 / 2) = Inr ms \<and>
      length ms = 2 \<and>
      ms ! 0 = fill_slice (full (8, 8, 8) 0) (3, 3, 3) (5, 5, 5) 1 \<and>
      elem (ms ! 0) (3, 3, 3) = 1 \<and> elem (ms ! 0) (5, 3, 3) = 0 \<and>
      all_zero (ms ! 1))"
proof -
  let ?c = "[(1 / 2, 1 / 2, 1 / 2), (1 / 2, 1 / 2, 1 / 2)] :: fvec3 list"
  let ?s = "[(1 / 4, 1 / 4, 1 / 4), (1 / 4, 1 / 4, 1 / 4)] :: fvec3 list"
  let ?p = "[9 / 10, 1 / 10 :: rat]"
  have h: "length ?s = length ?c" "length ?p = length ?c" "?p \<noteq> []" "nonneg3 (8, 8, 8)"
    by simp_all
  from regression_threshold[OF h, of "1 / 2"]
  obtain ms :: "rat ndarray list" where
    ms: "create_mask_reg ?c ?s ?p (8, 8, 8) (1 / 2) = Inr ms" "length ms = length ?c"
    and all: "\<forall>i<length ?c.
       (1 / 2 < ?p ! i \<longrightarrow>
          ms ! i = fill_slice (full (nshape (8, 8, 8)) 0) (start_pixel (8, 8, 8) (?c ! i, ?s ! i))
                     (end_pixel (8, 8, 8) (?c ! i, ?s ! i)) 1) \<and>
       (?p ! i \<le> 1 / 2 \<longrightarrow> ms ! i = full (nshape (8, 8, 8)) 0 \<and> all_zero (ms ! i))"
    by (elim exE conjE) (rule that)
  have m0: "ms ! 0 = fill_slice (full (8, 8, 8) 0) (3, 3, 3) (5, 5, 5) 1"
    using all[rule_format, of 0] by (simp add: quarter_coords)
  have m1: "all_zero (ms ! 1)"
    using all[rule_format, of 1] by (simp add: all_zero_full)
  have e: "elem (ms ! 0) (3, 3, 3) = 1" "elem (ms ! 0) (5, 3, 3) = 0"
    unfolding m0 elem_fill_slice
    by (simp_all add: np_shape_full slice_lo_def slice_hi_def elem_full)
  have l: "length ms = 2" using ms(2) by simp
  have "\<exists>ms :: rat ndarray list.
      create_mask_reg ?c ?s ?p (8, 8, 8) (1 / 2) = Inr ms \<and> length ms = 2 \<and>
      ms ! 0 = fill_slice (full (8, 8, 8) 0) (3, 3, 3) (5, 5, 5) 1 \<and>
      elem (ms ! 0) (3, 3, 3) = 1 \<and> elem (ms ! 0) (5, 3, 3) = 0 \<and> all_zero (ms ! 1)"
    by (intro exI[of _ ms] conjI ms(1) l m0 e m1)
  then show ?thesis
    by (intro conjI h(1,3,4))
qed

text \<open>
  Claim C10. If on some axis the rounded start coordinate of item \<open>i\<close> equals its rounded end
  coordinate, the volume of item \<open>i\<close> is all-zero, whatever its probability; and there are
  inputs with a strictly positive size and a probability above the threshold for which this
  happens (centre one half, size \<open>2^-10\<close>, crop of eight voxels: both coordinates round
  to 4).
\<close>

theorem collapsed_interval_all_zero:
  fixes t :: rat
  assumes "length sizes = length centers" and "length probs = length centers"
    and "nonneg3 crop" and "i < length centers"
    and "any_eq (start_pixel crop (centers ! i, sizes ! i))
           (end_pixel crop (centers ! i, sizes ! i))"
  shows "(\<exists>ms :: ('a::{zero,one}) ndarray list.
       create_mask_reg centers sizes probs crop t = Inr ms \<and> all_zero (ms ! i)) \<and>
    (\<exists>c s n (p :: rat) (th :: rat). fpos3 s \<and> th < p \<and> nonneg3 n \<and>
        any_eq (start_pixel n (c, s)) (end_pixel n (c, s)))"
proof
  have ne: "probs \<noteq> []" using assms(2,4) by auto
  from create_mask_reg_nth[OF assms(1,2) ne assms(3,4), of t]
  obtain ms :: "'a ndarray list" where ms: "create_mask_reg centers sizes probs crop t = Inr ms"
    and nth: "ms ! i = (if t < probs ! i
              then fill_slice (full (nshape crop) 0) (start_pixel crop (centers ! i, sizes ! i))
                     (end_pixel crop (centers ! i, sizes ! i)) 1
              else full (nshape crop) 0)"
    by (elim exE conjE) (rule that)
  have "all_zero (ms ! i)"
    unfolding nth using assms(5) by (simp add: all_zero_full all_zero_collapsed)
  with ms show "\<exists>ms :: 'a ndarray list.
      create_mask_reg centers sizes probs crop t = Inr ms \<and> all_zero (ms ! i)"
    by blast
next
  have "fpos3 (1 / 1024, 1 / 1024, 1 / 1024) \<and> (1 / 2 :: rat) < 9 / 10 \<and> nonneg3 (8, 8, 8) \<and>
      any_eq (start_pixel (8, 8, 8) ((1 / 2, 1 / 2, 1 / 2), (1 / 1024, 1 / 1024, 1 / 1024)))
        (end_pixel (8, 8, 8) ((1 / 2, 1 / 2, 1 / 2), (1 / 1024, 1 / 1024, 1 / 1024)))"
    by (simp add: collapse_coords)
  then show "\<exists>c s n (p :: rat) (th :: rat). fpos3 s \<and> th < p \<and> nonneg3 n \<and>
        any_eq (start_pixel n (c, s)) (end_pixel n (c, s))"
    by blast
qed

theorem collapsed_interval_all_zero_witness:
  "length ([(1 / 1024, 1 / 1024, 1 / 1024)] :: fvec3 list)
     = length ([(1 / 2, 1 / 2, 1 / 2)] :: fvec3 list) \<and>
   nonneg3 (8, 8, 8) \<and> fpos3 (1 / 1024, 1 / 1024, 1 / 1024) \<and> (1 / 2 :: rat) < 9 / 10 \<and>
   start_pixel (8, 8, 8) ((1 / 2, 1 / 2, 1 / 2), (1 / 1024, 1 / 1024, 1 / 1024)) = (4, 4, 4) \<and>
   end_pixel (8, 8, 8) ((1 / 2, 1 / 2, 1 / 2), (1 / 1024, 1 / 1024, 1 / 1024)) = (4, 4, 4) \<and>
   (\<exists>ms :: rat ndarray list.
      create_mask_reg [(1 / 2, 1 / 2, 1 / 2)] [(1 / 1024, 1 / 1024, 1 / 1024)] [9 / 10]
        (8, 8, 8) (1 / 2) = Inr ms \<and> all_zero (ms ! 0))"
proof -
  let ?c = "[(1 / 2, 1 / 2, 1 / 2)] :: fvec3 list"
  let ?s = "[(1 / 1024, 1 / 1024, 1 / 1024)] :: fvec3 list"
  let ?p = "[9 / 10 :: rat]"
  have h: "length ?s = length ?c" "length ?p = length ?c" "nonneg3 (8, 8, 8)"
      "(0::nat) < length ?c"
    by simp_all
  have px: "start_pixel (8, 8, 8) ((1 / 2, 1 / 2, 1 / 2), (1 / 1024, 1 / 1024, 1 / 1024)) = (4, 4, 4)"
      "end_pixel (8, 8, 8) ((1 / 2, 1 / 2, 1 / 2), (1 / 1024, 1 / 1024, 1 / 1024)) = (4, 4, 4)"
    by (simp_all add: collapse_coords)
  have q: "any_eq (start_pixel (8, 8, 8) (?c ! 0, ?s ! 0)) (end_pixel (8, 8, 8) (?c ! 0, ?s ! 0))"
    by (simp add: collapse_coords)
  note t = collapsed_interval_all_zero[where t = "1 / 2", OF h q, THEN conjunct1]
  have o: "fpos3 (1 / 1024, 1 / 1024, 1 / 1024)" "(1 / 2 :: rat) < 9 / 10"
    by simp_all
  show ?thesis
    by (intro conjI h(1,3) o px t)
qed

text \<open>
  Claim C9 as stated fails: with strictly positive sizes \<open>2^-10\<close> around the centre one half
  of a crop of eight voxels, item 0 (probability \<open>0.9\<close> above the threshold \<open>0.5\<close>) has
  \<open>start = end = 4\<close> and its mask has no voxel equal to 1.
\<close>

theorem regression_nonempty_counterexample:
  "fpos3 (1 / 1024, 1 / 1024, 1 / 1024) \<and>
   (\<exists>ms :: rat ndarray list.
      create_mask_reg [(1 / 2, 1 / 2, 1 / 2), (1 / 2, 1 / 2, 1 / 2)]
        [(1 / 1024, 1 / 1024, 1 / 1024), (1 / 1024, 1 / 1024, 1 / 1024)] [9 / 10, 1 / 10]
        (8, 8, 8) (1 / 2) = Inr ms \<and>
      all_zero (ms ! 0) \<and> \<not> has_one (ms ! 0))"
proof -
  let ?c = "[(1 / 2, 1 / 2, 1 / 2), (1 / 2, 1 / 2, 1 / 2)] :: fvec3 list"
  let ?s = "[(1 / 1024, 1 / 1024, 1 / 1024), (1 / 1024, 1 / 1024, 1 / 1024)] :: fvec3 list"
  let ?p = "[9 / 10, 1 / 10 :: rat]"
  have h: "length ?s = length ?c" "length ?p = length ?c" "?p \<noteq> []" "nonneg3 (8, 8, 8)"
      "(0::nat) < length ?c"
    by simp_all
  from create_mask_reg_nth[OF h, of "1 / 2"]
  obtain ms :: "rat ndarray list" where
    ms: "create_mask_reg ?c ?s ?p (8, 8, 8) (1 / 2) = Inr ms"
    and nth: "ms ! 0 = (if (1 / 2 :: rat) < ?p ! 0
              then fill_slice (full (nshape (8, 8, 8)) 0) (start_pixel (8, 8, 8) (?c ! 0, ?s ! 0))
                     (end_pixel (8, 8, 8) (?c ! 0, ?s ! 0)) 1
              else full (nshape (8, 8, 8)) 0)"
    by (elim exE conjE) (rule that)
  have m0: "ms ! 0 = fill_slice (full (8, 8, 8) 0) (4, 4, 4) (4, 4, 4) 1"
    unfolding nth by (simp add: collapse_coords)
  have z: "all_zero (ms ! 0)"
    unfolding m0 by (rule all_zero_collapsed) simp
  then have n: "\<not> has_one (ms ! 0)"
    by (rule all_zero_not_has_one)
  have "\<exists>ms :: rat ndarray list. create_mask_reg ?c ?s ?p (8, 8, 8) (1 / 2) = Inr ms \<and>
      all_zero (ms ! 0) \<and> \<not> has_one (ms ! 0)"
    by (intro exI[of _ ms] conjI ms z n)
  then show ?thesis
    by (intro conjI) simp_all
qed


subsection \<open>Small integers are doubles; the end coordinate stays inside the crop\<close>

lemma rnd64_exact_if:
  assumes "x \<noteq> 0" and "x / 2 powi ulp_exp x = of_int m"
  shows "rnd64 x = x"
proof -
  have "rnd64 x = of_int (rint (of_int m)) * 2 powi ulp_exp x"
    using assms by (simp add: rnd64_def)
  also have "\<dots> = x / 2 powi ulp_exp x * 2 powi ulp_exp x"
    unfolding assms(2) by simp
  also have "\<dots> = x"
    using pow2_pos[of "ulp_exp x"] by simp
  finally show ?thesis .
qed

lemma rnd64_of_int_exact:
  assumes "0 \<le> n" and "n \<le> 2 ^ 53"
  shows "rnd64 (of_int n) = of_int n"
proof (cases "n = 0")
  case True
  then show ?thesis by simp
next
  case False
  define x :: rat where "x = of_int n"
  have x1: "1 \<le> x"
    using assms(1) False unfolding x_def by (simp add: of_int_1_le_iff)
  have xu: "x \<le> 2 ^ 53"
    unfolding x_def using assms(2) by (rule of_int_le_pow2)
  have pos: "0 < x" using x1 by simp
  define k where "k = floor_log2 x"
  note b = floor_log2_bounds[OF pos, folded k_def]
  have k0: "0 \<le> k"
  proof (rule ccontr)
    assume "\<not> 0 \<le> k"
    then have "k + 1 \<le> 0" by simp
    then have "(2::rat) powi (k + 1) \<le> 2 powi 0"
      by (intro power_int_increasing) simp_all
    with b(2) x1 show False by simp
  qed
  have k53: "k \<le> 53"
  proof (rule ccontr)
    assume "\<not> k \<le> 53"
    then have "54 \<le> k" by simp
    then have "(2::rat) powi 54 \<le> 2 powi k"
      by (intro power_int_increasing) simp_all
    with b(1) xu show False by simp
  qed
  have e: "ulp_exp x = k - 52"
    using k0 pos by (simp add: ulp_exp_def k_def)
  have "\<exists>m. x / 2 powi (k - 52) = of_int m"
  proof (cases "k \<le> 52")
    case True
    define j where "j = nat (52 - k)"
    have kj: "k - 52 = - int j" using True by (simp add: j_def)
    have "x / 2 powi (k - 52) = x * 2 ^ j"
      unfolding kj by (simp add: power_int_minus divide_inverse)
    also have "\<dots> = of_int (n * 2 ^ j)"
      by (simp add: x_def)
    finally show ?thesis by blast
  next
    case False
    with k53 have k: "k = 53" by simp
    have "(2::rat) ^ 53 \<le> x" using b(1) unfolding k by simp
    with xu have x: "x = 2 ^ 53" by simp
    have "x / 2 powi (k - 52) = of_int (2 ^ 52)"
      unfolding k x by simp
    then show ?thesis by blast
  qed
  then obtain m where "x / 2 powi ulp_exp x = of_int m"
    unfolding e by blast
  with pos have "rnd64 x = x"
    by (intro rnd64_exact_if[of x m]) simp_all
  then show ?thesis by (simp add: x_def)
qed

lemma coord_le_crop:
  assumes "0 \<le> n" and "n \<le> 2 ^ 53"
  shows "start_coord c s n \<le> n" and "end_coord c s n \<le> n"
proof -
  have f: "float_of_int n = of_int n"
    unfolding float_of_int_def using assms by (rule rnd64_of_int_exact)
  have "rint (fmul (np_clip x 0 1) (float_of_int n)) \<le> n" for x
  proof -
    have "np_clip x 0 1 * of_int n \<le> 1 * of_int n"
      using np_clip_bounds(2)[of x] assms(1) by (intro mult_right_mono) simp_all
    then have "rnd64 (np_clip x 0 1 * of_int n) \<le> rnd64 (of_int n)"
      by (intro rnd64_mono) simp
    then have "fmul (np_clip x 0 1) (float_of_int n) \<le> of_int n"
      unfolding fmul_def f using rnd64_of_int_exact[OF assms] by simp
    then have "rint (fmul (np_clip x 0 1) (float_of_int n)) \<le> rint (of_int n)"
      by (rule rint_mono)
    then show ?thesis by (simp only: rint_of_int)
  qed
  then show "start_coord c s n \<le> n" and "end_coord c s n \<le> n"
    unfolding coord_simps by simp_all
qed

lemma pixel_le_crop:
  assumes "nonneg3 crop" and "vle crop (2 ^ 53, 2 ^ 53, 2 ^ 53)"
  shows "vle (end_pixel crop (c, sz)) crop"
  using assms by (cases sz; cases crop; cases c) (simp add: coord_le_crop)

lemma slice_nonempty_iff:
  fixes n s e :: int
  assumes "0 \<le> s" "0 \<le> e" "e \<le> n"
  shows "slice_lo n s < slice_hi n s e \<longleftrightarrow> s < e"
proof -
  have lo: "slice_lo n s = min s n" using assms(1) by (simp add: slice_lo_def)
  have hi: "slice_hi n s e = max (min s n) e"
    using assms(2,3) by (simp add: slice_hi_def lo)
  show ?thesis
    unfolding lo hi using assms by (simp add: min_def max_def)
qed

lemma slice_within:
  fixes n s e :: int
  assumes "0 \<le> n"
  shows "0 \<le> slice_lo n s" and "slice_hi n s e \<le> n"
  using assms by (simp_all add: slice_lo_def slice_hi_def)

lemma box_nonempty_iff: "(\<exists>p. in_box lo hi p) \<longleftrightarrow> vlt lo hi"
proof -
  obtain l0 l1 l2 h0 h1 h2 where eq: "lo = (l0, l1, l2)" "hi = (h0, h1, h2)"
    by (metis prod_cases3)
  show ?thesis
    unfolding eq
  proof
    assume "\<exists>p. in_box (l0, l1, l2) (h0, h1, h2) p"
    then obtain p0 p1 p2 where "in_box (l0, l1, l2) (h0, h1, h2) (p0, p1, p2)"
      by (metis prod_cases3)
    then show "vlt (l0, l1, l2) (h0, h1, h2)" by simp
  next
    assume "vlt (l0, l1, l2) (h0, h1, h2)"
    then have "in_box (l0, l1, l2) (h0, h1, h2) (l0, l1, l2)" by simp
    then show "\<exists>p. in_box (l0, l1, l2) (h0, h1, h2) p" by blast
  qed
qed

lemma slice_box_facts:
  assumes "nonneg3 n" "nonneg3 st" "nonneg3 en" "vle en n"
  shows "vlt (slice_los n st) (slice_his n st en) \<longleftrightarrow> vlt st en"
    and "in_box (slice_los n st) (slice_his n st en) p \<Longrightarrow> in_box (0, 0, 0) n p"
proof -
  obtain n0 n1 n2 s0 s1 s2 e0 e1 e2 p0 p1 p2 where
    eq: "n = (n0, n1, n2)" "st = (s0, s1, s2)" "en = (e0, e1, e2)" "p = (p0, p1, p2)"
    by (metis prod_cases3)
  have a: "0 \<le> n0" "0 \<le> n1" "0 \<le> n2" "0 \<le> s0" "0 \<le> s1" "0 \<le> s2"
      "0 \<le> e0" "0 \<le> e1" "0 \<le> e2" "e0 \<le> n0" "e1 \<le> n1" "e2 \<le> n2"
    using assms unfolding eq by simp_all
  show "vlt (slice_los n st) (slice_his n st en) \<longleftrightarrow> vlt st en"
    unfolding eq
    by (simp add: slice_nonempty_iff[OF a(4) a(7) a(10)] slice_nonempty_iff[OF a(5) a(8) a(11)]
        slice_nonempty_iff[OF a(6) a(9) a(12)])
  show "in_box (slice_los n st) (slice_his n st en) p \<Longrightarrow> in_box (0, 0, 0) n p"
    unfolding eq
    using slice_within(1)[OF a(1), of s0] slice_within(2)[OF a(1), of s0 e0]
      slice_within(1)[OF a(2), of s1] slice_within(2)[OF a(2), of s1 e1]
      slice_within(1)[OF a(3), of s2] slice_within(2)[OF a(3), of s2 e2]
    by simp
qed

lemma ishape_nshape_nonneg: "nonneg3 d \<Longrightarrow> ishape (nshape d) = d"
  by (cases d) simp

lemma has_one_fill_iff:
  fixes st en crop :: vec3
  assumes "nonneg3 crop" "nonneg3 st" "nonneg3 en" "vle en crop"
  shows "has_one (fill_slice (full (nshape crop) (0 :: 'a::zero_neq_one)) st en 1)
    \<longleftrightarrow> vlt st en"
proof -
  let ?a = "full (nshape crop) (0::'a)"
  have sh: "np_shape ?a = crop"
    using assms(1) by (simp add: np_shape_full ishape_nshape_nonneg)
  note f = slice_box_facts[OF assms]
  have "has_one (fill_slice ?a st en 1) \<longleftrightarrow>
      (\<exists>p. in_box (0, 0, 0) crop p \<and> in_box (slice_los crop st) (slice_his crop st en) p)"
    unfolding has_one_iff
    by (simp add: in_bounds_def np_shape_fill_slice sh elem_fill_slice elem_full) blast
  also have "\<dots> \<longleftrightarrow> (\<exists>p. in_box (slice_los crop st) (slice_his crop st en) p)"
    using f(2) by blast
  also have "\<dots> \<longleftrightarrow> vlt st en"
    unfolding box_nonempty_iff by (rule f(1))
  finally show ?thesis .
qed


text \<open>
  Claim C9, as amended. With two items, probabilities \<open>p0 > threshold >= p1\<close> (as
  \<open>[0.9, 0.1]\<close> and \<open>0.5\<close>) and a crop shape with components between 0 and \<open>2^53\<close>, the
  call returns two volumes for every \<open>centers\<close> and \<open>sizes\<close>: the volume of item 1 is
  all-zero, and the volume of item 0 has a voxel equal to 1 exactly when its rounded start is
  strictly below its rounded end on every axis.
\<close>

theorem regression_two_items:
  fixes t p0 p1 :: rat
  assumes "length centers = 2" and "length sizes = 2"
    and "nonneg3 crop" and "vle crop (2 ^ 53, 2 ^ 53, 2 ^ 53)"
    and "t < p0" and "p1 \<le> t"
  shows "\<exists>ms :: ('a::zero_neq_one) ndarray list.
    create_mask_reg centers sizes [p0, p1] crop t = Inr ms \<and> length ms = 2 \<and>
    all_zero (ms ! 1) \<and>
    (has_one (ms ! 0) \<longleftrightarrow>
       vlt (start_pixel crop (centers ! 0, sizes ! 0)) (end_pixel crop (centers ! 0, sizes ! 0)))"
proof -
  obtain c0 c1 where c: "centers = [c0, c1]"
    using assms(1) by (auto simp: length_Suc_conv numeral_2_eq_2)
  obtain s0 s1 where s: "sizes = [s0, s1]"
    using assms(2) by (auto simp: length_Suc_conv numeral_2_eq_2)
  let ?m0 = "fill_slice (full (nshape crop) (0::'a)) (start_pixel crop (c0, s0))
      (end_pixel crop (c0, s0)) 1"
  have run: "create_mask_reg centers sizes [p0, p1] crop t
      = Inr [?m0, full (nshape crop) (0::'a)]"
    unfolding c s using assms(5,6)
    by (subst create_mask_reg_result) (simp_all add: assms(3))
  have h: "has_one ?m0 \<longleftrightarrow> vlt (start_pixel crop (c0, s0)) (end_pixel crop (c0, s0))"
    using assms(3) pixel_nonneg[OF assms(3)] pixel_le_crop[OF assms(3,4)]
    by (intro has_one_fill_iff)
  have nth: "centers ! 0 = c0" "sizes ! 0 = s0"
    by (simp_all add: c s)
  show ?thesis
    by (rule exI[of _ "[?m0, full (nshape crop) (0::'a)]"])
      (simp add: run all_zero_full h nth)
qed

text \<open>
  Two items with centre one half, sizes one quarter, crop of eight voxels: item 0 is filled
  on \<open>[3, 5)\<close> of every axis, item 1 stays zero.
\<close>

theorem regression_two_items_witness:
  "length ([(1 / 2, 1 / 2, 1 / 2), (1 / 2, 1 / 2, 1 / 2)] :: fvec3 list) = 2 \<and>
   nonneg3 (8, 8, 8) \<and> vle (8, 8, 8) (2 ^ 53, 2 ^ 53, 2 ^ 53) \<and>
   (1 / 2 :: rat) < 9 / 10 \<and> (1 / 10 :: rat) \<le> 1 / 2 \<and>
   vlt (3, 3, 3) (5, 5, 5) \<and>
   (\<exists>ms :: rat ndarray list.
      create_mask_reg [(1 / 2, 1 / 2, 1 / 2), (1 / 2, 1 / 2, 1 / 2)]
        [(1 / 4, 1 / 4, 1 / 4), (1 / 4, 1 / 4, 1 / 4)] [9 / 10, 1 / 10] (8, 8, 8) (1 / 2) = Inr ms \<and>
      all_zero (ms ! 1) \<and> has_one (ms ! 0))"
proof -
  let ?c = "[(1 / 2, 1 / 2, 1 / 2), (1 / 2, 1 / 2, 1 / 2)] :: fvec3 list"
  let ?s = "[(1 / 4, 1 / 4, 1 / 4), (1 / 4, 1 / 4, 1 / 4)] :: fvec3 list"
  have h: "length ?c = 2" "length ?s = 2" "nonneg3 (8, 8, 8)"
      "vle (8, 8, 8) (2 ^ 53, 2 ^ 53, 2 ^ 53)" "(1 / 2 :: rat) < 9 / 10" "(1 / 10 :: rat) \<le> 1 / 2"
    by simp_all
  have v: "vlt (3, 3, 3) (5, 5, 5)" by simp
  from regression_two_items[OF h]
  obtain ms :: "rat ndarray list" where
    ms: "create_mask_reg ?c ?s [9 / 10, 1 / 10] (8, 8, 8) (1 / 2) = Inr ms"
    and z: "all_zero (ms ! 1)"
    and iff: "has_one (ms ! 0) \<longleftrightarrow>
       vlt (start_pixel (8, 8, 8) (?c ! 0, ?s ! 0)) (end_pixel (8, 8, 8) (?c ! 0, ?s ! 0))"
    by (elim exE conjE) (rule that)
  have o: "has_one (ms ! 0)"
    unfolding iff by (simp add: quarter_coords)
  have "\<exists>ms :: rat ndarray list.
      create_mask_reg ?c ?s [9 / 10, 1 / 10] (8, 8, 8) (1 / 2) = Inr ms \<and>
      all_zero (ms ! 1) \<and> has_one (ms ! 0)"
    by (intro exI[of _ ms] conjI ms z o)
  then show ?thesis
    by (intro conjI h(1,3,4,5,6) v)
qed


subsection \<open>The coordinate formula\<close>

lemma clip_unit: "np_clip d 0 1 = (if d < 0 then 0 else if 1 < d then 1 else d)"
  by (simp add: np_clip_def min_def max_def)

lemma coord_formula:
  "start_coord c s n =
     astype_int (of_int (rint (rnd64
       ((if rnd64 (c - rnd64 (s / 2)) < 0 then 0
         else if 1 < rnd64 (c - rnd64 (s / 2)) then 1
         else rnd64 (c - rnd64 (s / 2))) * rnd64 (of_int n)))))"
  "end_coord c s n =
     astype_int (of_int (rint (rnd64
       ((if rnd64 (c + rnd64 (s / 2)) < 0 then 0
         else if 1 < rnd64 (c + rnd64 (s / 2)) then 1
         else rnd64 (c + rnd64 (s / 2))) * rnd64 (of_int n)))))"
  unfolding start_coord_def end_coord_def clip_unit fmul_def fsub_def fadd_def fdiv_def
    float_of_int_def by (rule refl)+

lemma rint_zero: "rint 0 = 0"
  using rint_of_int[of 0] by simp

lemma start_coord_saturated:
  assumes "rnd64 (c - rnd64 (s / 2)) \<le> 0"
  shows "start_coord c s n = 0"
proof -
  have "np_clip (fsub c (fdiv s 2)) 0 1 = 0"
    using assms by (simp add: clip_unit fsub_def fdiv_def)
  then show ?thesis
    by (simp add: coord_simps fmul_def rint_zero)
qed

lemma end_coord_saturated:
  assumes "0 \<le> n" and "n \<le> 2 ^ 53" and "1 \<le> rnd64 (c + rnd64 (s / 2))"
  shows "end_coord c s n = n"
proof -
  have "np_clip (fadd c (fdiv s 2)) 0 1 = 1"
    using assms(3) by (simp add: clip_unit fadd_def fdiv_def)
  then show ?thesis
    by (simp add: coord_simps fmul_def float_of_int_def rnd64_of_int_exact[OF assms(1,2)])
qed

text \<open>
  Claim C6. \<open>np.rint\<close> rounds to the nearest integer with ties to the even one; the cast
  truncates towards zero, and on the integral result of \<open>np.rint\<close> it is the identity. With \<open>rnd64\<close> the rounding of an exact result to
  binary64, the start coordinate of an item on an axis is the cast of
  \<open>rint(rnd64(clip(d, 0, 1) * rnd64(n)))\<close> where \<open>d = rnd64(c - rnd64(s / 2))\<close>,
  \<open>clip(d, 0, 1)\<close> is 0 below 0, 1 above 1 and \<open>d\<close> in between, and \<open>n\<close> is the crop extent;
  the end coordinate is the same with \<open>+\<close>. So a start whose \<open>d\<close> is not positive is 0, an
  end whose \<open>d\<close> is at least 1 is \<open>n\<close>, both coordinates lie in \<open>[0, n]\<close> (for \<open>n\<close> up to
  \<open>2^53\<close>), and for a size without negative components (and a crop shape that \<open>np.zeros\<close>
  accepts) \<open>start <= end\<close> on every axis.
\<close>

theorem regression_coordinates:
  "(\<forall>x. \<bar>of_int (rint x) - x\<bar> \<le> 1 / 2) \<and>
   (\<forall>x. \<bar>of_int (rint x) - x\<bar> = 1 / 2 \<longrightarrow> even (rint x)) \<and>
   (\<forall>x. astype_int x = (if 0 \<le> x then \<lfloor>x\<rfloor> else \<lceil>x\<rceil>)) \<and>
   (\<forall>k. astype_int (of_int k) = k) \<and>
   start_coord c s n =
     astype_int (of_int (rint (rnd64
       ((if rnd64 (c - rnd64 (s / 2)) < 0 then 0
         else if 1 < rnd64 (c - rnd64 (s / 2)) then 1
         else rnd64 (c - rnd64 (s / 2))) * rnd64 (of_int n))))) \<and>
   end_coord c s n =
     astype_int (of_int (rint (rnd64
       ((if rnd64 (c + rnd64 (s / 2)) < 0 then 0
         else if 1 < rnd64 (c + rnd64 (s / 2)) then 1
         else rnd64 (c + rnd64 (s / 2))) * rnd64 (of_int n))))) \<and>
   (rnd64 (c - rnd64 (s / 2)) \<le> 0 \<longrightarrow> start_coord c s n = 0) \<and>
   (0 \<le> n \<and> n \<le> 2 ^ 53 \<and> 1 \<le> rnd64 (c + rnd64 (s / 2)) \<longrightarrow> end_coord c s n = n) \<and>
   (0 \<le> n \<longrightarrow> 0 \<le> start_coord c s n \<and> 0 \<le> end_coord c s n) \<and>
   (0 \<le> n \<and> n \<le> 2 ^ 53 \<longrightarrow> start_coord c s n \<le> n \<and> end_coord c s n \<le> n) \<and>
   (0 \<le> s \<and> 0 \<le> n \<longrightarrow> start_coord c s n \<le> end_coord c s n) \<and>
   start_pixel (n0, n1, n2) ((c0, c1, c2), (s0, s1, s2))
     = (start_coord c0 s0 n0, start_coord c1 s1 n1, start_coord c2 s2 n2) \<and>
   end_pixel (n0, n1, n2) ((c0, c1, c2), (s0, s1, s2))
     = (end_coord c0 s0 n0, end_coord c1 s1 n1, end_coord c2 s2 n2) \<and>
   (fnonneg3 sz \<and> nonneg3 crop \<longrightarrow>
      vle (start_pixel crop (ctr, sz)) (end_pixel crop (ctr, sz)))"
proof (intro conjI allI impI)
  show "\<bar>of_int (rint x) - x\<bar> \<le> 1 / 2" for x
    by (rule rint_nearest)
  show "even (rint x)" if "\<bar>of_int (rint x) - x\<bar> = 1 / 2" for x
    using that by (rule rint_tie_even)
  show "astype_int x = (if 0 \<le> x then \<lfloor>x\<rfloor> else \<lceil>x\<rceil>)" for x
    by (rule astype_int_def)
  show "astype_int (of_int k) = k" for k
    by (rule astype_int_of_int)
  show "start_coord c s n =
     astype_int (of_int (rint (rnd64
       ((if rnd64 (c - rnd64 (s / 2)) < 0 then 0
         else if 1 < rnd64 (c - rnd64 (s / 2)) then 1
         else rnd64 (c - rnd64 (s / 2))) * rnd64 (of_int n)))))"
    by (rule coord_formula)
  show "end_coord c s n =
     astype_int (of_int (rint (rnd64
       ((if rnd64 (c + rnd64 (s / 2)) < 0 then 0
         else if 1 < rnd64 (c + rnd64 (s / 2)) then 1
         else rnd64 (c + rnd64 (s / 2))) * rnd64 (of_int n)))))"
    by (rule coord_formula)
  show "start_coord c s n = 0" if "rnd64 (c - rnd64 (s / 2)) \<le> 0"
    using that by (rule start_coord_saturated)
  show "end_coord c s n = n" if "0 \<le> n \<and> n \<le> 2 ^ 53 \<and> 1 \<le> rnd64 (c + rnd64 (s / 2))"
    using that by (intro end_coord_saturated) simp_all
  show "0 \<le> start_coord c s n" "0 \<le> end_coord c s n" if "0 \<le> n"
    using that by (rule coord_nonneg)+
  show "start_coord c s n \<le> n" "end_coord c s n \<le> n" if "0 \<le> n \<and> n \<le> 2 ^ 53"
    using that by (intro coord_le_crop; simp)+
  show "start_coord c s n \<le> end_coord c s n" if "0 \<le> s \<and> 0 \<le> n"
    using that by (intro coord_le) simp_all
  show "start_pixel (n0, n1, n2) ((c0, c1, c2), (s0, s1, s2))
     = (start_coord c0 s0 n0, start_coord c1 s1 n1, start_coord c2 s2 n2)"
    "end_pixel (n0, n1, n2) ((c0, c1, c2), (s0, s1, s2))
     = (end_coord c0 s0 n0, end_coord c1 s1 n1, end_coord c2 s2 n2)"
    by simp_all
  show "vle (start_pixel crop (ctr, sz)) (end_pixel crop (ctr, sz))"
    if "fnonneg3 sz \<and> nonneg3 crop"
    using that by (intro pixel_le) simp_all
qed

lemma rnd64_half: "rnd64 (1 / 2) = 1 / 2"
  using rnd64_eval[of "-1" "1 / 2" "4503599627370496"] by (simp add: power_int_minus)

text \<open>
  A centre at one half with size one in a crop of eight voxels: the start saturates at 0 and
  the end at 8. The tie \<open>5/2\<close> rounds to the even neighbour.
\<close>

theorem regression_coordinates_witness:
  "rnd64 (1 / 2 - rnd64 (1 / 2)) \<le> 0 \<and>
   (0::int) \<le> 8 \<and> (8::int) \<le> 2 ^ 53 \<and> 1 \<le> rnd64 (1 / 2 + rnd64 (1 / 2)) \<and>
   (0::rat) \<le> 1 \<and> fnonneg3 (1, 1, 1) \<and> nonneg3 (8, 8, 8) \<and>
   start_coord (1 / 2) 1 8 = 0 \<and> end_coord (1 / 2) 1 8 = 8 \<and>
   0 \<le> start_coord (1 / 2) 1 8 \<and> 0 \<le> end_coord (1 / 2) 1 8 \<and>
   start_coord (1 / 2) 1 8 \<le> 8 \<and> end_coord (1 / 2) 1 8 \<le> 8 \<and>
   start_coord (1 / 2) 1 8 \<le> end_coord (1 / 2) 1 8 \<and>
   vle (start_pixel (8, 8, 8) ((1 / 2, 1 / 2, 1 / 2), (1, 1, 1)))
     (end_pixel (8, 8, 8) ((1 / 2, 1 / 2, 1 / 2), (1, 1, 1))) \<and>
   \<bar>of_int (rint (5 / 2)) - 5 / 2\<bar> = (1 / 2 :: rat) \<and> even (rint (5 / 2)) \<and> rint (5 / 2) = 2"
proof -
  note t = regression_coordinates[where c = "1 / 2" and s = 1 and n = 8
      and sz = "(1, 1, 1)" and crop = "(8, 8, 8)" and ctr = "(1 / 2, 1 / 2, 1 / 2)"]
  have d0: "rnd64 (1 / 2 - rnd64 (1 / 2)) \<le> 0"
    by (simp add: rnd64_half)
  have d1: "1 \<le> rnd64 (1 / 2 + rnd64 (1 / 2))"
    by (simp add: rnd64_half)
  have n: "(0::int) \<le> 8" "(8::int) \<le> 2 ^ 53"
    by simp_all
  have s: "(0::rat) \<le> 1"
    by simp
  have h: "fnonneg3 (1, 1, 1)" "nonneg3 (8, 8, 8)"
    by simp_all
  have r: "rint (5 / 2) = 2"
  proof -
    have "\<lfloor>5 / 2 :: rat\<rfloor> = 2" by (rule floor_unique) simp_all
    then show ?thesis by (simp add: rint_def)
  qed
  have tie: "\<bar>of_int (rint (5 / 2)) - 5 / 2\<bar> = (1 / 2 :: rat)"
    unfolding r by simp
  note ev = t[THEN conjunct2, THEN conjunct1, THEN spec, THEN mp, OF tie]
  note rest = t[THEN conjunct2, THEN conjunct2, THEN conjunct2, THEN conjunct2, THEN conjunct2,
      THEN conjunct2]
  note st = rest[THEN conjunct1, THEN mp, OF d0]
  note en = rest[THEN conjunct2, THEN conjunct1, THEN mp, OF conjI[OF n(1) conjI[OF n(2) d1]]]
  note nn = rest[THEN conjunct2, THEN conjunct2, THEN conjunct1, THEN mp, OF n(1)]
  note lc = rest[THEN conjunct2, THEN conjunct2, THEN conjunct2, THEN conjunct1, THEN mp,
      OF conjI[OF n]]
  note le = rest[THEN conjunct2, THEN conjunct2, THEN conjunct2, THEN conjunct2, THEN conjunct1,
      THEN mp, OF conjI[OF s n(1)]]
  note vl = rest[THEN conjunct2, THEN conjunct2, THEN conjunct2, THEN conjunct2, THEN conjunct2,
      THEN conjunct2, THEN conjunct2, THEN mp, OF conjI[OF h]]
  show ?thesis
    by (intro conjI d0 n d1 s h st en nn[THEN conjunct1] nn[THEN conjunct2]
        lc[THEN conjunct1] lc[THEN conjunct2] le vl tie ev r)
qed

end
